theory Spec2Isabelle
  imports Complex_Main "HOL-Library.Monad_Syntax" "HOL-Library.Multiset"
begin

section \<open>Melody representation (src/src/melody\_repr.py, src/src/midi\_io.py)\<close>

text \<open>
  Python floats are modelled as real numbers throughout: \<open>1e-6\<close> is \<open>1 / 10 ^ 6\<close>,
  \<open>1e18\<close> is \<open>10 ^ 18\<close>, and \<open>float("inf")\<close> is a constructor of its own.
  Python integers are \<open>int\<close>.
\<close>

record NoteEvent =
  pitch :: int
  onset :: real
  duration :: real

record MelodyRep =
  pitches :: "int list"
  intervals :: "int list"
  contour :: "int list"
  ioi :: "real list"

definition bin_interval_semitones :: "int \<Rightarrow> int" where
  "bin_interval_semitones semi =
     (if semi \<le> - 7 then - 4
      else if semi \<in> {- 6, - 5} then - 3
      else if semi \<in> {- 4, - 3} then - 2
      else if semi \<in> {- 2, - 1} then - 1
      else if semi = 0 then 0
      else if semi \<in> {1, 2} then 1
      else if semi \<in> {3, 4} then 2
      else if semi \<in> {5, 6} then 3
      else if semi \<ge> 7 then 4
      else 0)"

definition contour_from_semitones :: "int \<Rightarrow> int" where
  "contour_from_semitones semi = (if semi > 0 then 1 else if semi < 0 then - 1 else 0)"

definition eps :: real where
  "eps = 1 / 10 ^ 6"

text \<open>
  \<open>notes_to_rep\<close>: the index expressions \<open>pitches[i + 1]\<close>, \<open>pitches[i]\<close> run over
  \<open>range(len(pitches) - 1)\<close>, so they are in range by construction.
\<close>

definition notes_to_rep :: "NoteEvent list \<Rightarrow> MelodyRep" where
  "notes_to_rep notes =
     (if length notes < 2 then
        \<lparr>pitches = map pitch notes, intervals = [], contour = [], ioi = []\<rparr>
      else
        let ps = map pitch notes;
            onsets = map onset notes;
            raw_intervals = map (\<lambda>i. ps ! (i + 1) - ps ! i) [0..<length ps - 1];
            ivs = map bin_interval_semitones raw_intervals;
            cs = map contour_from_semitones raw_intervals;
            ts = map (\<lambda>i. max eps (onsets ! (i + 1) - onsets ! i)) [0..<length onsets - 1]
        in \<lparr>pitches = ps, intervals = ivs, contour = cs, ioi = ts\<rparr>)"

section \<open>Alignment costs (src/src/similarity.py)\<close>

definition interval_cost :: "int \<Rightarrow> int \<Rightarrow> real" where
  "interval_cost a b = real_of_int \<bar>a - b\<bar> / 8"

definition contour_cost :: "int \<Rightarrow> int \<Rightarrow> real" where
  "contour_cost a b = (if a = b then 0 else 1)"

definition timing_ratio_cost :: "real \<Rightarrow> real \<Rightarrow> real \<Rightarrow> real \<Rightarrow> real" where
  "timing_ratio_cost q_prev q s_prev s =
     (let rq = q / max eps q_prev;
          rs = s / max eps s_prev
      in \<bar>ln (max eps rq) - ln (max eps rs)\<bar>)"


record Weights =
  w_int :: real
  w_cont :: real
  w_time :: real
  w_abs :: real
  ins_cost :: real
  del_cost :: real

text \<open>The keyword defaults of \<open>dp_distance\<close>.\<close>

definition default_weights :: Weights where
  "default_weights =
     \<lparr>w_int = 1, w_cont = 7 / 10, w_time = 15 / 100, w_abs = 2 / 10,
      ins_cost = 8 / 10, del_cost = 8 / 10\<rparr>"

text \<open>A float that is either finite or \<open>float("inf")\<close>.\<close>

datatype xreal = Fin real | PosInf

record MatchResult =
  cost :: xreal
  end_j :: int

definition INF_val :: real where
  "INF_val = 10 ^ 18"

text \<open>
  \<open>xs[i]\<close> for an index that is never negative: Python raises IndexError out of range,
  here \<open>None\<close>. IndexError is the only exception \<open>dp_distance\<close> can raise on
  well-typed arguments, so \<open>None\<close> stands for it in everything below.
\<close>

definition idx :: "'a list \<Rightarrow> nat \<Rightarrow> 'a option" where
  "idx xs i = (if i < length xs then Some (xs ! i) else None)"

text \<open>The nested function \<open>local(i, j)\<close> of \<open>dp_distance\<close>.\<close>

definition local_cost :: "Weights \<Rightarrow> MelodyRep \<Rightarrow> MelodyRep \<Rightarrow> nat \<Rightarrow> nat \<Rightarrow> real option" where
  "local_cost W query song i j = do {
     qi \<leftarrow> idx (intervals query) (i - 1);
     si \<leftarrow> idx (intervals song) (j - 1);
     let ic = interval_cost qi si;
     qc \<leftarrow> idx (contour query) (i - 1);
     sc \<leftarrow> idx (contour song) (j - 1);
     let cc = contour_cost qc sc;
     tc \<leftarrow> (if i \<ge> 2 \<and> j \<ge> 2 then do {
              q_prev \<leftarrow> idx (ioi query) (i - 2);
              q \<leftarrow> idx (ioi query) (i - 1);
              s_prev \<leftarrow> idx (ioi song) (j - 2);
              s \<leftarrow> idx (ioi song) (j - 1);
              Some (timing_ratio_cost q_prev q s_prev s)
            } else Some 0);
     Some (w_int W * ic + w_cont W * cc + w_time W * tc)
   }"

text \<open>
  The body of the inner loop of \<open>dp_distance\<close>: the value stored in \<open>D[i][j]\<close>. The
  table has \<open>m + 1\<close> rows of \<open>n + 1\<close> columns and \<open>1 \<le> i \<le> m\<close>, \<open>1 \<le> j \<le> n\<close>, so
  the table reads are in range.
\<close>

definition cell :: "Weights \<Rightarrow> MelodyRep \<Rightarrow> MelodyRep \<Rightarrow> real list list \<Rightarrow> nat \<Rightarrow> nat \<Rightarrow> real option" where
  "cell W query song D i j = do {
     let best = INF_val;
     l \<leftarrow> local_cost W query song i j;
     let best = min best (D ! (i - 1) ! (j - 1) + l);
     let best = min best (D ! (i - 1) ! j + ins_cost W);
     let best = min best (D ! i ! (j - 1) + del_cost W);
     best \<leftarrow> (if i \<ge> 2 then do {
                 a \<leftarrow> idx (intervals query) (i - 2);
                 b \<leftarrow> idx (intervals query) (i - 1);
                 let merged_q = max (- 4) (min 4 (a + b));
                 merged_c \<leftarrow> idx (contour query) (i - 1);
                 si \<leftarrow> idx (intervals song) (j - 1);
                 let ic = interval_cost merged_q si;
                 sc \<leftarrow> idx (contour song) (j - 1);
                 let cc = contour_cost merged_c sc;
                 Some (min best (D ! (i - 2) ! (j - 1) + w_int W * ic + w_cont W * cc + 6 / 10))
               } else Some best);
     best \<leftarrow> (if j \<ge> 2 then do {
                 a \<leftarrow> idx (intervals song) (j - 2);
                 b \<leftarrow> idx (intervals song) (j - 1);
                 let merged_s = max (- 4) (min 4 (a + b));
                 merged_c \<leftarrow> idx (contour song) (j - 1);
                 qi \<leftarrow> idx (intervals query) (i - 1);
                 let ic = interval_cost qi merged_s;
                 qc \<leftarrow> idx (contour query) (i - 1);
                 let cc = contour_cost qc merged_c;
                 Some (min best (D ! (i - 1) ! (j - 2) + w_int W * ic + w_cont W * cc + 6 / 10))
               } else Some best);
     Some best
   }"

text \<open>\<open>for j in range(1, n + 1)\<close>, over the list of the values of \<open>j\<close>.\<close>

fun row_loop :: "Weights \<Rightarrow> MelodyRep \<Rightarrow> MelodyRep \<Rightarrow> nat \<Rightarrow> nat list \<Rightarrow> real list list
    \<Rightarrow> real list list option" where
  "row_loop W query song i [] D = Some D"
| "row_loop W query song i (j # js) D = do {
     best \<leftarrow> cell W query song D i j;
     row_loop W query song i js (D[i := (D ! i)[j := best]])
   }"

text \<open>\<open>for i in range(1, m + 1)\<close>, over the list of the values of \<open>i\<close>.\<close>

fun table_loop :: "Weights \<Rightarrow> MelodyRep \<Rightarrow> MelodyRep \<Rightarrow> nat \<Rightarrow> nat list \<Rightarrow> real list list
    \<Rightarrow> real list list option" where
  "table_loop W query song n [] D = Some D"
| "table_loop W query song n (i # is) D = do {
     D' \<leftarrow> row_loop W query song i [1..<n + 1] D;
     table_loop W query song n is D'
   }"

text \<open>
  \<open>D = [[INF] * (n + 1) for _ in range(m + 1)]\<close> followed by
  \<open>for j in range(n + 1): D[0][j] = 0.0\<close>.
\<close>

definition init_table :: "nat \<Rightarrow> nat \<Rightarrow> real list list" where
  "init_table m n =
     fold (\<lambda>j D. D[0 := (D ! 0)[j := 0]]) [0..<n + 1] (replicate (m + 1) (replicate (n + 1) INF_val))"

definition dp_table :: "Weights \<Rightarrow> MelodyRep \<Rightarrow> MelodyRep \<Rightarrow> real list list option" where
  "dp_table W query song =
     (let m = length (intervals query); n = length (intervals song)
      in table_loop W query song n [1..<m + 1] (init_table m n))"

text \<open>The final scan \<open>for j in range(1, n + 1)\<close> over the last row, on \<open>(best_cost, best_j)\<close>.\<close>

fun best_end :: "real list \<Rightarrow> nat list \<Rightarrow> real \<times> int \<Rightarrow> real \<times> int" where
  "best_end row [] acc = acc"
| "best_end row (j # js) (best_cost, best_j) =
     (if row ! j < best_cost then best_end row js (row ! j, int j - 1)
      else best_end row js (best_cost, best_j))"

definition mean_pitch :: "int list \<Rightarrow> real" where
  "mean_pitch ps = real_of_int (sum_list ps) / real (length ps)"

definition dp_distance :: "Weights \<Rightarrow> MelodyRep \<Rightarrow> MelodyRep \<Rightarrow> MatchResult option" where
  "dp_distance W query song =
     (let m = length (intervals query); n = length (intervals song)
      in if m = 0 \<or> n = 0 then Some \<lparr>cost = PosInf, end_j = - 1\<rparr>
         else do {
           D \<leftarrow> dp_table W query song;
           let (best_cost, best_j) = best_end (D ! m) [1..<n + 1] (INF_val, - 1);
           let best_cost =
             (if pitches query \<noteq> [] \<and> pitches song \<noteq> [] then
                let avg_q = mean_pitch (pitches query);
                    avg_s = mean_pitch (pitches song);
                    abs_pen = w_abs W * (\<bar>avg_q - avg_s\<bar> / 12)
                in best_cost + abs_pen
              else best_cost);
           Some \<lparr>cost = Fin best_cost, end_j = best_j\<rparr>
         })"

section \<open>Corpus database (src/src/database.py)\<close>

text \<open>
  \<open>SongEntry\<close> carries the four sequences of a \<open>MelodyRep\<close> together with
  \<open>song_id\<close> and \<open>midi_path\<close>.
\<close>

record SongEntry = MelodyRep +
  song_id :: string
  midi_path :: string

definition entry_to_rep :: "SongEntry \<Rightarrow> MelodyRep" where
  "entry_to_rep entry =
     \<lparr>pitches = pitches entry, intervals = intervals entry,
      contour = contour entry, ioi = ioi entry\<rparr>"

text \<open>\<open>s.split(c)\<close> for a separator of one character.\<close>

fun split_on :: "char \<Rightarrow> string \<Rightarrow> string list" where
  "split_on c [] = [[]]"
| "split_on c (x # xs) =
     (if x = c then [] # split_on c xs
      else (case split_on c xs of w # ws \<Rightarrow> (x # w) # ws | [] \<Rightarrow> [[x]]))"

text \<open>\<open>s.rsplit(c, 1)[0]\<close>: \<open>s\<close> up to its last \<open>c\<close>, or all of \<open>s\<close> when it has none.\<close>

definition rsplit1_head :: "char \<Rightarrow> string \<Rightarrow> string" where
  "rsplit1_head c s =
     (if c \<in> set s then rev (tl (dropWhile (\<lambda>x. x \<noteq> c) (rev s))) else s)"

definition song_id_of_path :: "string \<Rightarrow> string" where
  "song_id_of_path path = rsplit1_head (CHR ''.'') (last (split_on (CHR ''/'') path))"

definition too_few_msg :: string where
  "too_few_msg = ''No usable melody extracted (too few notes/intervals).''"

text \<open>
  \<open>build_db\<close>. The MIDI reader \<open>extract_melody_notes\<close> is a parameter: for a path it
  gives the notes, or \<open>Inl\<close> the text \<open>f"{type(e).__name__}: {e}"\<close> of the exception it
  raises. The state of the loop is \<open>(db, bad)\<close>; \<open>bad\<close> is what the function writes to the
  log file, \<open>db\<close> is what it returns.
\<close>

fun build_db_loop :: "(string \<Rightarrow> string + NoteEvent list) \<Rightarrow> string list
    \<Rightarrow> SongEntry list \<times> (string \<times> string) list \<Rightarrow> SongEntry list \<times> (string \<times> string) list" where
  "build_db_loop extract [] (db, bad) = (db, bad)"
| "build_db_loop extract (path # paths) (db, bad) =
     (case extract path of
        Inl msg \<Rightarrow> build_db_loop extract paths (db, bad @ [(path, msg)])
      | Inr notes \<Rightarrow>
          (let rep = notes_to_rep notes in
           if length (intervals rep) < 2 then
             build_db_loop extract paths (db, bad @ [(path, too_few_msg)])
           else
             build_db_loop extract paths
               (db @ [\<lparr>pitches = pitches rep, intervals = intervals rep, contour = contour rep,
                        ioi = ioi rep, song_id = song_id_of_path path, midi_path = path\<rparr>],
                bad)))"

definition build_db :: "(string \<Rightarrow> string + NoteEvent list) \<Rightarrow> string list
    \<Rightarrow> SongEntry list \<times> (string \<times> string) list" where
  "build_db extract midi_paths = build_db_loop extract midi_paths ([], [])"

text \<open>
  The JSON payload that \<open>save_db\<close> writes and \<open>load_db\<close> reads: a list of objects with the
  six keys of \<open>SongEntry\<close>.
\<close>

record EntryDict =
  d_song_id :: string
  d_midi_path :: string
  d_pitches :: "int list"
  d_intervals :: "int list"
  d_contour :: "int list"
  d_ioi :: "real list"

definition save_db :: "SongEntry list \<Rightarrow> EntryDict list" where
  "save_db db =
     map (\<lambda>entry. \<lparr>d_song_id = song_id entry, d_midi_path = midi_path entry,
                    d_pitches = pitches entry, d_intervals = intervals entry,
                    d_contour = contour entry, d_ioi = ioi entry\<rparr>) db"

text \<open>\<open>load_db\<close>: \<open>[SongEntry(**x) for x in payload]\<close>.\<close>

definition load_db :: "EntryDict list \<Rightarrow> SongEntry list" where
  "load_db payload =
     map (\<lambda>x. \<lparr>pitches = d_pitches x, intervals = d_intervals x, contour = d_contour x,
               ioi = d_ioi x, song_id = d_song_id x, midi_path = d_midi_path x\<rparr>) payload"

text \<open>
  The length invariant of a representation, in the words of the specification: with
  \<open>N\<close> pitches, the three derived sequences have length \<open>N - 1\<close> when \<open>N \<ge> 2\<close> and are
  empty when \<open>N < 2\<close>.
\<close>

definition length_invariant :: "'a MelodyRep_scheme \<Rightarrow> bool" where
  "length_invariant r =
     (if 2 \<le> length (pitches r) then
        length (intervals r) = length (pitches r) - 1 \<and>
        length (contour r) = length (pitches r) - 1 \<and>
        length (ioi r) = length (pitches r) - 1
      else intervals r = [] \<and> contour r = [] \<and> ioi r = [])"

text \<open>The entry that \<open>build_db\<close> appends for a path and its notes.\<close>

definition entry_of :: "string \<Rightarrow> NoteEvent list \<Rightarrow> SongEntry" where
  "entry_of path notes =
     \<lparr>pitches = pitches (notes_to_rep notes), intervals = intervals (notes_to_rep notes),
      contour = contour (notes_to_rep notes), ioi = ioi (notes_to_rep notes),
      song_id = song_id_of_path path, midi_path = path\<rparr>"

section \<open>Window scan and ranking (src/app.py)\<close>

definition xless :: "xreal \<Rightarrow> xreal \<Rightarrow> bool" where
  "xless a b = (case (a, b) of
      (Fin x, Fin y) \<Rightarrow> x < y
    | (Fin x, PosInf) \<Rightarrow> True
    | (PosInf, _) \<Rightarrow> False)"



text \<open>
  The four dictionaries \<open>best_score\<close>, \<open>best_cost\<close>, \<open>best_start\<close>, \<open>best_len\<close> have the
  same keys and are written together: one dictionary from \<open>song_id\<close> to a record of the
  four values, kept as an association list in insertion order (the order in which
  \<open>for sid in best_score\<close> visits the keys).
\<close>

record WindowMatch =
  best_score :: xreal
  best_cost :: xreal
  best_start :: "real option"
  best_len :: nat





text \<open>
  The update \<open>if score < best_score[sid]: ...\<close> as a function of the stored record and the
  new window result: the new one replaces the stored one exactly when its score is
  strictly smaller.
\<close>

definition keep_min :: "WindowMatch \<Rightarrow> WindowMatch \<Rightarrow> WindowMatch" where
  "keep_min cur new = (if xless (best_score new) (best_score cur) then new else cur)"











section \<open>The recurrence of the specification and the invariants of the table loops\<close>

text \<open>
  The recurrence in the words of the specification, 1-indexed: \<open>query.intervals[i]\<close> of
  the specification is \<open>intervals query ! (i - 1)\<close>.
\<close>

definition spec_timing :: "real \<Rightarrow> real \<Rightarrow> real \<Rightarrow> real \<Rightarrow> real" where
  "spec_timing q_prev q s_prev s =
     \<bar>ln (max (1 / 10 ^ 6) (q / max (1 / 10 ^ 6) q_prev)) -
      ln (max (1 / 10 ^ 6) (s / max (1 / 10 ^ 6) s_prev))\<bar>"

definition spec_local :: "Weights \<Rightarrow> MelodyRep \<Rightarrow> MelodyRep \<Rightarrow> nat \<Rightarrow> nat \<Rightarrow> real" where
  "spec_local W query song i j =
     w_int W * (\<bar>real_of_int (intervals query ! (i - 1) - intervals song ! (j - 1))\<bar> / 8) +
     w_cont W * (if contour query ! (i - 1) = contour song ! (j - 1) then 0 else 1) +
     w_time W * (if 2 \<le> i \<and> 2 \<le> j
                 then spec_timing (ioi query ! (i - 2)) (ioi query ! (i - 1))
                        (ioi song ! (j - 2)) (ioi song ! (j - 1))
                 else 0)"

definition spec_clamp :: "int \<Rightarrow> int" where
  "spec_clamp x = max (- 4) (min 4 x)"

definition spec_merge_query :: "Weights \<Rightarrow> MelodyRep \<Rightarrow> MelodyRep \<Rightarrow> real list list \<Rightarrow> nat \<Rightarrow> nat \<Rightarrow> real" where
  "spec_merge_query W query song D i j =
     D ! (i - 2) ! (j - 1) +
     w_int W * interval_cost (spec_clamp (intervals query ! (i - 2) + intervals query ! (i - 1)))
                 (intervals song ! (j - 1)) +
     w_cont W * contour_cost (contour query ! (i - 1)) (contour song ! (j - 1)) + 6 / 10"

definition spec_merge_song :: "Weights \<Rightarrow> MelodyRep \<Rightarrow> MelodyRep \<Rightarrow> real list list \<Rightarrow> nat \<Rightarrow> nat \<Rightarrow> real" where
  "spec_merge_song W query song D i j =
     D ! (i - 1) ! (j - 2) +
     w_int W * interval_cost (intervals query ! (i - 1))
                 (spec_clamp (intervals song ! (j - 2) + intervals song ! (j - 1))) +
     w_cont W * contour_cost (contour query ! (i - 1)) (contour song ! (j - 1)) + 6 / 10"

text \<open>The candidates (1) to (5) for \<open>D[i][j]\<close>; (4) only when \<open>i \<ge> 2\<close>, (5) only when \<open>j \<ge> 2\<close>.\<close>

definition spec_options :: "Weights \<Rightarrow> MelodyRep \<Rightarrow> MelodyRep \<Rightarrow> real list list \<Rightarrow> nat \<Rightarrow> nat \<Rightarrow> real list" where
  "spec_options W query song D i j =
     [D ! (i - 1) ! (j - 1) + spec_local W query song i j,
      D ! (i - 1) ! j + ins_cost W,
      D ! i ! (j - 1) + del_cost W] @
     (if 2 \<le> i then [spec_merge_query W query song D i j] else []) @
     (if 2 \<le> j then [spec_merge_song W query song D i j] else [])"

text \<open>
  A representation whose three derived sequences have one length, as the data model
  requires; on others \<open>dp_distance\<close> can raise IndexError.
\<close>

definition rep_ok :: "MelodyRep \<Rightarrow> bool" where
  "rep_ok r = (length (contour r) = length (intervals r) \<and> length (ioi r) = length (intervals r))"

text \<open>
  The index reads of the loop body at the cell \<open>(i, j)\<close> are in range: \<open>intervals\<close> and
  \<open>contour\<close> are read at \<open>i - 1\<close> and \<open>j - 1\<close>, and \<open>ioi\<close> only when \<open>i \<ge> 2\<close> and
  \<open>j \<ge> 2\<close> (the reads at \<open>i - 2\<close> and \<open>j - 2\<close> are then in range as well).
\<close>

definition reads_ok_at :: "MelodyRep \<Rightarrow> MelodyRep \<Rightarrow> nat \<Rightarrow> nat \<Rightarrow> bool" where
  "reads_ok_at query song i j =
     (i - 1 < length (intervals query) \<and> j - 1 < length (intervals song) \<and>
      i - 1 < length (contour query) \<and> j - 1 < length (contour song) \<and>
      (2 \<le> i \<and> 2 \<le> j \<longrightarrow> i - 1 < length (ioi query) \<and> j - 1 < length (ioi song)))"

text \<open>
  The same for the whole table: each \<open>contour\<close> is at least as long as its \<open>intervals\<close>,
  and so is each \<open>ioi\<close> when both interval sequences have two elements or more.
\<close>

definition reads_ok :: "MelodyRep \<Rightarrow> MelodyRep \<Rightarrow> bool" where
  "reads_ok query song =
     (length (intervals query) \<le> length (contour query) \<and>
      length (intervals song) \<le> length (contour song) \<and>
      (2 \<le> length (intervals query) \<and> 2 \<le> length (intervals song) \<longrightarrow>
         length (intervals query) \<le> length (ioi query) \<and>
         length (intervals song) \<le> length (ioi song)))"

definition table_shape :: "nat \<Rightarrow> nat \<Rightarrow> real list list \<Rightarrow> bool" where
  "table_shape m n D = (length D = m + 1 \<and> (\<forall>i\<le>m. length (D ! i) = n + 1))"

definition cell_filled :: "Weights \<Rightarrow> MelodyRep \<Rightarrow> MelodyRep \<Rightarrow> real list list \<Rightarrow> nat \<Rightarrow> nat \<Rightarrow> bool" where
  "cell_filled W query song D i j = (cell W query song D i j = Some (D ! i ! j))"

text \<open>
  The invariant of the two loops when the next cell to write is \<open>(i0, j0)\<close>: the shape
  of the table, its first row and first column, and every cell written so far holds the
  value that the loop body computes from the table.
\<close>

definition table_inv :: "Weights \<Rightarrow> MelodyRep \<Rightarrow> MelodyRep \<Rightarrow> nat \<Rightarrow> nat \<Rightarrow> real list list
    \<Rightarrow> nat \<Rightarrow> nat \<Rightarrow> bool" where
  "table_inv W query song m n D i0 j0 =
     (table_shape m n D \<and>
      (\<forall>j\<le>n. D ! 0 ! j = 0) \<and>
      (\<forall>i. 1 \<le> i \<and> i \<le> m \<longrightarrow> D ! i ! 0 = INF_val) \<and>
      (\<forall>i j. 1 \<le> i \<and> 1 \<le> j \<and> j \<le> n \<and> (i < i0 \<or> (i = i0 \<and> j < j0))
         \<longrightarrow> cell_filled W query song D i j))"

definition nonneg_weights :: "Weights \<Rightarrow> bool" where
  "nonneg_weights W = (0 \<le> w_int W \<and> 0 \<le> w_cont W \<and> 0 \<le> w_time W \<and> 0 \<le> w_abs W \<and>
     0 \<le> ins_cost W \<and> 0 \<le> del_cost W)"


section \<open>Example inputs\<close>

definition notes0 :: "NoteEvent list" where
  "notes0 = [\<lparr>pitch = 60, onset = 0, duration = 1 / 2\<rparr>,
             \<lparr>pitch = 67, onset = 1 / 2, duration = 1 / 4\<rparr>,
             \<lparr>pitch = 64, onset = 1 / 2, duration = 1 / 2\<rparr>]"

definition wm_a :: WindowMatch where
  "wm_a = \<lparr>best_score = Fin 1, best_cost = Fin 4, best_start = Some 0, best_len = 16\<rparr>"

definition wm_b :: WindowMatch where
  "wm_b = \<lparr>best_score = Fin 1, best_cost = Fin 4, best_start = Some 5, best_len = 16\<rparr>"

definition wm_c :: WindowMatch where
  "wm_c = \<lparr>best_score = Fin 2, best_cost = Fin 8, best_start = Some 10, best_len = 16\<rparr>"

definition rep_up :: MelodyRep where
  "rep_up = \<lparr>pitches = [60, 72], intervals = [4], contour = [1], ioi = [1]\<rparr>"

definition rep_down :: MelodyRep where
  "rep_down = \<lparr>pitches = [72, 60], intervals = [- 4], contour = [- 1], ioi = [1]\<rparr>"

definition huge_weights :: Weights where
  "huge_weights =
     \<lparr>w_int = 10 ^ 19, w_cont = 7 / 10, w_time = 15 / 100, w_abs = 2 / 10,
      ins_cost = 2 * 10 ^ 18, del_cost = 2 * 10 ^ 18\<rparr>"

definition rep_single :: MelodyRep where
  "rep_single = \<lparr>pitches = [60], intervals = [], contour = [], ioi = []\<rparr>"

definition bad_dict :: EntryDict where
  "bad_dict = \<lparr>d_song_id = ''bad'', d_midi_path = ''data/midi_songs/bad.mid'',
     d_pitches = [60, 62, 64], d_intervals = [1], d_contour = [], d_ioi = []\<rparr>"

definition bad_entry :: SongEntry where
  "bad_entry = \<lparr>pitches = [60, 62, 64], intervals = [1], contour = [], ioi = [],
     song_id = ''bad'', midi_path = ''data/midi_songs/bad.mid''\<rparr>"

definition notes3 :: "NoteEvent list" where
  "notes3 = [\<lparr>pitch = 60, onset = 0, duration = 1 / 2\<rparr>,
             \<lparr>pitch = 62, onset = 1 / 2, duration = 1 / 2\<rparr>,
             \<lparr>pitch = 64, onset = 1, duration = 1 / 2\<rparr>]"

text \<open>A MIDI reader that fails on one file, finds one note in another and three in a third.\<close>

definition extract0 :: "string \<Rightarrow> string + NoteEvent list" where
  "extract0 path =
     (if path = ''a/broken.mid'' then Inl ''OSError: data byte must be in range 0..127''
      else if path = ''a/short.mid'' then Inr [\<lparr>pitch = 60, onset = 0, duration = 1\<rparr>]
      else Inr notes3)"

definition paths0 :: "string list" where
  "paths0 = [''a/broken.mid'', ''a/short.mid'', ''b/song.one.mid'']"




section \<open>Representation builder: properties\<close>

lemma bin_interval_semitones_mono:
  "d1 \<le> d2 \<Longrightarrow> bin_interval_semitones d1 \<le> bin_interval_semitones d2"
  unfolding bin_interval_semitones_def by (simp split: if_splits)


lemma bin_interval_semitones_table:
  "(d \<le> - 7 \<longrightarrow> bin_interval_semitones d = - 4) \<and>
   (d \<in> {- 6, - 5} \<longrightarrow> bin_interval_semitones d = - 3) \<and>
   (d \<in> {- 4, - 3} \<longrightarrow> bin_interval_semitones d = - 2) \<and>
   (d \<in> {- 2, - 1} \<longrightarrow> bin_interval_semitones d = - 1) \<and>
   (d = 0 \<longrightarrow> bin_interval_semitones d = 0) \<and>
   (d \<in> {1, 2} \<longrightarrow> bin_interval_semitones d = 1) \<and>
   (d \<in> {3, 4} \<longrightarrow> bin_interval_semitones d = 2) \<and>
   (d \<in> {5, 6} \<longrightarrow> bin_interval_semitones d = 3) \<and>
   (7 \<le> d \<longrightarrow> bin_interval_semitones d = 4)"
  unfolding bin_interval_semitones_def by auto

lemma contour_from_semitones_sgn: "contour_from_semitones d = sgn d"
  unfolding contour_from_semitones_def by simp

lemma notes_to_rep_pitches: "pitches (notes_to_rep notes) = map pitch notes"
  unfolding notes_to_rep_def by (simp add: Let_def)

lemma notes_to_rep_short:
  "length notes < 2 \<Longrightarrow>
     intervals (notes_to_rep notes) = [] \<and> contour (notes_to_rep notes) = [] \<and>
     ioi (notes_to_rep notes) = []"
  unfolding notes_to_rep_def by simp

lemma notes_to_rep_lengths:
  "length (intervals (notes_to_rep notes)) = length notes - 1 \<and>
   length (contour (notes_to_rep notes)) = length notes - 1 \<and>
   length (ioi (notes_to_rep notes)) = length notes - 1"
  unfolding notes_to_rep_def by (simp add: Let_def)

lemma notes_to_rep_nth:
  assumes "k < length notes - 1"
  shows "intervals (notes_to_rep notes) ! k =
           bin_interval_semitones (pitch (notes ! (k + 1)) - pitch (notes ! k))"
    and "contour (notes_to_rep notes) ! k =
           contour_from_semitones (pitch (notes ! (k + 1)) - pitch (notes ! k))"
    and "ioi (notes_to_rep notes) ! k = max eps (onset (notes ! (k + 1)) - onset (notes ! k))"
  using assms unfolding notes_to_rep_def by (auto simp: Let_def)

text \<open>
  C6: for at least two notes, \<open>notes_to_rep\<close> returns the notes' pitches and three derived
  sequences of length \<open>N - 1\<close>: the interval symbol of each raw semitone delta by the
  nine-bin table (total and monotonic), the sign of the delta, and the onset difference
  floored at \<open>1e-6\<close>; for fewer than two notes the three derived sequences are empty.
\<close>

theorem notes_to_rep_spec:
  "pitches (notes_to_rep notes) = map pitch notes \<and>
   (length notes < 2 \<longrightarrow>
      intervals (notes_to_rep notes) = [] \<and> contour (notes_to_rep notes) = [] \<and>
      ioi (notes_to_rep notes) = []) \<and>
   (2 \<le> length notes \<longrightarrow>
      length (intervals (notes_to_rep notes)) = length notes - 1 \<and>
      length (contour (notes_to_rep notes)) = length notes - 1 \<and>
      length (ioi (notes_to_rep notes)) = length notes - 1 \<and>
      (\<forall>k<length notes - 1.
         intervals (notes_to_rep notes) ! k =
           bin_interval_semitones (pitch (notes ! (k + 1)) - pitch (notes ! k)) \<and>
         contour (notes_to_rep notes) ! k = sgn (pitch (notes ! (k + 1)) - pitch (notes ! k)) \<and>
         ioi (notes_to_rep notes) ! k =
           max (1 / 10 ^ 6) (onset (notes ! (k + 1)) - onset (notes ! k)))) \<and>
   (\<forall>d. (d \<le> - 7 \<longrightarrow> bin_interval_semitones d = - 4) \<and>
        (d \<in> {- 6, - 5} \<longrightarrow> bin_interval_semitones d = - 3) \<and>
        (d \<in> {- 4, - 3} \<longrightarrow> bin_interval_semitones d = - 2) \<and>
        (d \<in> {- 2, - 1} \<longrightarrow> bin_interval_semitones d = - 1) \<and>
        (d = 0 \<longrightarrow> bin_interval_semitones d = 0) \<and>
        (d \<in> {1, 2} \<longrightarrow> bin_interval_semitones d = 1) \<and>
        (d \<in> {3, 4} \<longrightarrow> bin_interval_semitones d = 2) \<and>
        (d \<in> {5, 6} \<longrightarrow> bin_interval_semitones d = 3) \<and>
        (7 \<le> d \<longrightarrow> bin_interval_semitones d = 4)) \<and>
   (\<forall>d1 d2. d1 \<le> d2 \<longrightarrow> bin_interval_semitones d1 \<le> bin_interval_semitones d2)"
proof -
  have short: "length notes < 2 \<longrightarrow>
      intervals (notes_to_rep notes) = [] \<and> contour (notes_to_rep notes) = [] \<and>
      ioi (notes_to_rep notes) = []"
    using notes_to_rep_short by blast
  have long: "2 \<le> length notes \<longrightarrow>
      length (intervals (notes_to_rep notes)) = length notes - 1 \<and>
      length (contour (notes_to_rep notes)) = length notes - 1 \<and>
      length (ioi (notes_to_rep notes)) = length notes - 1 \<and>
      (\<forall>k<length notes - 1.
         intervals (notes_to_rep notes) ! k =
           bin_interval_semitones (pitch (notes ! (k + 1)) - pitch (notes ! k)) \<and>
         contour (notes_to_rep notes) ! k = sgn (pitch (notes ! (k + 1)) - pitch (notes ! k)) \<and>
         ioi (notes_to_rep notes) ! k =
           max (1 / 10 ^ 6) (onset (notes ! (k + 1)) - onset (notes ! k)))"
    using notes_to_rep_lengths notes_to_rep_nth
    by (simp add: contour_from_semitones_sgn eps_def)
  have mono: "\<forall>d1 d2. d1 \<le> d2 \<longrightarrow> bin_interval_semitones d1 \<le> bin_interval_semitones d2"
    using bin_interval_semitones_mono by blast
  show ?thesis
    using notes_to_rep_pitches short long mono bin_interval_semitones_table
    by blast
qed

theorem notes_to_rep_spec_witness:
  "2 \<le> length notes0 \<and> (1::nat) < length notes0 - 1 \<and> (- 3::int) \<in> {- 4, - 3} \<and>
   (5::int) \<le> 7 \<and>
   intervals (notes_to_rep notes0) ! 1 = - 2 \<and>
   contour (notes_to_rep notes0) ! 1 = - 1 \<and>
   ioi (notes_to_rep notes0) ! 1 = 1 / 10 ^ 6 \<and>
   bin_interval_semitones 5 \<le> bin_interval_semitones 7"
proof -
  have len: "2 \<le> length notes0" and k: "(1::nat) < length notes0 - 1"
    by (simp_all add: notes0_def)
  have mem: "(- 3::int) \<in> {- 4, - 3}" and le: "(5::int) \<le> 7"
    by simp_all
  note T = notes_to_rep_spec [of notes0]
  from T len k have iv: "intervals (notes_to_rep notes0) ! 1 =
      bin_interval_semitones (pitch (notes0 ! (1 + 1)) - pitch (notes0 ! 1))"
    and ct: "contour (notes_to_rep notes0) ! 1 = sgn (pitch (notes0 ! (1 + 1)) - pitch (notes0 ! 1))"
    and io: "ioi (notes_to_rep notes0) ! 1 =
      max (1 / 10 ^ 6) (onset (notes0 ! (1 + 1)) - onset (notes0 ! 1))"
    by blast+
  from T mem have b: "bin_interval_semitones (- 3) = - 2"
    by blast
  from T le have m: "bin_interval_semitones 5 \<le> bin_interval_semitones 7"
    by blast
  have d: "pitch (notes0 ! (1 + 1)) - pitch (notes0 ! 1) = - 3"
    and o: "onset (notes0 ! (1 + 1)) - onset (notes0 ! 1) = 0"
    by (simp_all add: notes0_def)
  show ?thesis
    using len k mem le iv ct io b m unfolding d o by simp
qed

lemma bin_interval_semitones_sign:
  "(0 < bin_interval_semitones d \<longleftrightarrow> 0 < d) \<and>
   (bin_interval_semitones d < 0 \<longleftrightarrow> d < 0) \<and>
   (bin_interval_semitones d = 0 \<longleftrightarrow> d = 0)"
  unfolding bin_interval_semitones_def by auto presburger

lemma contour_from_semitones_sign:
  "(contour_from_semitones d = 1 \<longleftrightarrow> 0 < d) \<and>
   (contour_from_semitones d = - 1 \<longleftrightarrow> d < 0) \<and>
   (contour_from_semitones d = 0 \<longleftrightarrow> d = 0)"
  unfolding contour_from_semitones_def by auto

text \<open>
  C10: in every representation built by \<open>notes_to_rep\<close> the contour entry is the sign of
  the interval symbol at the same position.
\<close>

theorem contour_is_sign_of_interval:
  assumes "k < length (intervals (notes_to_rep notes))"
  shows "k < length (contour (notes_to_rep notes)) \<and>
         (contour (notes_to_rep notes) ! k = 1 \<longleftrightarrow> 0 < intervals (notes_to_rep notes) ! k) \<and>
         (contour (notes_to_rep notes) ! k = - 1 \<longleftrightarrow> intervals (notes_to_rep notes) ! k < 0) \<and>
         (contour (notes_to_rep notes) ! k = 0 \<longleftrightarrow> intervals (notes_to_rep notes) ! k = 0)"
proof -
  from assms have k: "k < length notes - 1"
    by (simp add: notes_to_rep_lengths)
  show ?thesis
    using k notes_to_rep_nth(1,2) [OF k] bin_interval_semitones_sign contour_from_semitones_sign
    by (simp add: notes_to_rep_lengths)
qed

theorem contour_is_sign_of_interval_witness:
  "(0::nat) < length (intervals (notes_to_rep notes0)) \<and>
   contour (notes_to_rep notes0) ! 0 = 1 \<and> 0 < intervals (notes_to_rep notes0) ! 0"
proof -
  have k: "(0::nat) < length (intervals (notes_to_rep notes0))"
    by (simp add: notes_to_rep_lengths notes0_def)
  have c: "contour (notes_to_rep notes0) ! 0 = 1"
    by (simp add: notes_to_rep_def notes0_def Let_def contour_from_semitones_def)
  from contour_is_sign_of_interval [OF k] c have "0 < intervals (notes_to_rep notes0) ! 0"
    by blast
  with k c show ?thesis by blast
qed

section \<open>Timing cost and the keep-minimum update: properties\<close>

lemma timing_ratio_cost_scaled:
  assumes c: "0 < c" and q: "eps \<le> q_prev" and s: "eps \<le> c * q_prev"
  shows "timing_ratio_cost q_prev q (c * q_prev) (c * q) = 0"
proof -
  have pos: "0 < q_prev"
    using q by (simp add: eps_def) 
  have m1: "max eps q_prev = q_prev" and m2: "max eps (c * q_prev) = c * q_prev"
    using q s by simp_all
  have "c * q / (c * q_prev) = q / q_prev"
    using c by simp
  then show ?thesis
    unfolding timing_ratio_cost_def Let_def m1 m2 by simp
qed

lemma idx_Some: "i < length xs \<Longrightarrow> idx xs i = Some (xs ! i)"
  by (simp add: idx_def)

text \<open>
  C9: the timing cost vanishes under uniform tempo scaling. For a scale \<open>c > 0\<close> and
  consecutive query IOIs \<open>(q_prev, q)\<close> with candidate IOIs \<open>(c * q_prev, c * q)\<close>, both
  denominators at least \<open>1e-6\<close>, \<open>_timing_ratio_cost\<close> is 0; so for two IOI sequences
  related by such a scaling the timing term of \<open>local(i, i)\<close> is 0 at every position.
  (Over the reals: the floats round \<open>c * q / (c * q_prev)\<close>.)
\<close>

theorem timing_cost_tempo_invariant:
  "(0 < c \<and> 1 / 10 ^ 6 \<le> q_prev \<and> 1 / 10 ^ 6 \<le> c * q_prev \<longrightarrow>
      timing_ratio_cost q_prev q (c * q_prev) (c * q) = 0) \<and>
   (0 < c \<and> ioi song = map (\<lambda>t. c * t) (ioi query) \<and>
    (\<forall>t \<in> set (ioi query). 1 / 10 ^ 6 \<le> t \<and> 1 / 10 ^ 6 \<le> c * t) \<and>
    2 \<le> i \<and> i \<le> length (ioi query) \<and>
    i \<le> length (intervals query) \<and> i \<le> length (intervals song) \<and>
    i \<le> length (contour query) \<and> i \<le> length (contour song) \<longrightarrow>
      timing_ratio_cost (ioi query ! (i - 2)) (ioi query ! (i - 1))
        (ioi song ! (i - 2)) (ioi song ! (i - 1)) = 0 \<and>
      local_cost W query song i i =
        Some (w_int W * interval_cost (intervals query ! (i - 1)) (intervals song ! (i - 1)) +
              w_cont W * contour_cost (contour query ! (i - 1)) (contour song ! (i - 1))))"
proof (rule conjI; rule impI)
  assume "0 < c \<and> 1 / 10 ^ 6 \<le> q_prev \<and> 1 / 10 ^ 6 \<le> c * q_prev"
  then show "timing_ratio_cost q_prev q (c * q_prev) (c * q) = 0"
    using timing_ratio_cost_scaled [of c q_prev q] by (simp add: eps_def)
next
  assume h: "0 < c \<and> ioi song = map (\<lambda>t. c * t) (ioi query) \<and>
    (\<forall>t \<in> set (ioi query). 1 / 10 ^ 6 \<le> t \<and> 1 / 10 ^ 6 \<le> c * t) \<and>
    2 \<le> i \<and> i \<le> length (ioi query) \<and>
    i \<le> length (intervals query) \<and> i \<le> length (intervals song) \<and>
    i \<le> length (contour query) \<and> i \<le> length (contour song)"
  then have i2: "i - 2 < length (ioi query)" and i1: "i - 1 < length (ioi query)"
    by auto
  have mem: "ioi query ! (i - 2) \<in> set (ioi query)"
    using i2 by simp
  have s2: "ioi song ! (i - 2) = c * (ioi query ! (i - 2))"
    and s1: "ioi song ! (i - 1) = c * (ioi query ! (i - 1))"
    using h i1 i2 by simp_all
  have z: "timing_ratio_cost (ioi query ! (i - 2)) (ioi query ! (i - 1))
        (ioi song ! (i - 2)) (ioi song ! (i - 1)) = 0"
    unfolding s1 s2 using h mem timing_ratio_cost_scaled [of c "ioi query ! (i - 2)"]
    by (simp add: eps_def)
  have len: "length (ioi song) = length (ioi query)"
    using h by simp
  have "local_cost W query song i i =
        Some (w_int W * interval_cost (intervals query ! (i - 1)) (intervals song ! (i - 1)) +
              w_cont W * contour_cost (contour query ! (i - 1)) (contour song ! (i - 1)))"
  proof -
    from h have b: "i - 1 < length (intervals query)" "i - 1 < length (intervals song)"
      "i - 1 < length (contour query)" "i - 1 < length (contour song)"
      "i - 2 < length (ioi song)" "i - 1 < length (ioi song)" "2 \<le> i"
      using len by auto
    show ?thesis
      unfolding local_cost_def using z b i1 i2 by (simp add: idx_def)
  qed
  with z show "timing_ratio_cost (ioi query ! (i - 2)) (ioi query ! (i - 1))
        (ioi song ! (i - 2)) (ioi song ! (i - 1)) = 0 \<and>
      local_cost W query song i i =
        Some (w_int W * interval_cost (intervals query ! (i - 1)) (intervals song ! (i - 1)) +
              w_cont W * contour_cost (contour query ! (i - 1)) (contour song ! (i - 1)))"
    by blast
qed

theorem timing_cost_tempo_invariant_witness:
  "(0::real) < 2 \<and> (1::real) / 10 ^ 6 \<le> 1 / 2 \<and> (1::real) / 10 ^ 6 \<le> 2 * (1 / 2) \<and>
   timing_ratio_cost (1 / 2) (3 / 4) (2 * (1 / 2)) (2 * (3 / 4)) = 0"
proof -
  have h: "(0::real) < 2 \<and> (1::real) / 10 ^ 6 \<le> 1 / 2 \<and> (1::real) / 10 ^ 6 \<le> 2 * (1 / 2)"
    by simp
  from timing_cost_tempo_invariant [of 2 "1 / 2" "3 / 4"] h
  have "timing_ratio_cost (1 / 2) (3 / 4) (2 * (1 / 2)) (2 * (3 / 4)) = 0"
    by blast
  with h show ?thesis by blast
qed

lemma keep_min_assoc: "keep_min (keep_min a b) c = keep_min a (keep_min b c)"
  unfolding keep_min_def xless_def by (auto split: xreal.splits)

lemma keep_min_score_commute: "best_score (keep_min a b) = best_score (keep_min b a)"
  unfolding keep_min_def xless_def by (auto split: xreal.splits)

lemma keep_min_commute_neq:
  "best_score a \<noteq> best_score b \<Longrightarrow> keep_min a b = keep_min b a"
  unfolding keep_min_def xless_def by (auto split: xreal.splits)

text \<open>
  C5, as stated, fails: two window results with the same score and different start
  offsets are combined to the first argument, so the combine is not commutative.
\<close>

theorem keep_min_not_commutative:
  "keep_min wm_a wm_b = wm_a \<and> keep_min wm_b wm_a = wm_b \<and> keep_min wm_a wm_b \<noteq> keep_min wm_b wm_a"
  by (simp add: keep_min_def xless_def wm_a_def wm_b_def)

text \<open>
  C5, amended: the keep-minimum combine is associative; the score it keeps is the same in
  either argument order; it is commutative whenever the two scores differ; on equal scores
  it keeps its first argument.
\<close>

theorem keep_min_assoc_and_score_commutative:
  "keep_min (keep_min a b) c = keep_min a (keep_min b c) \<and>
   best_score (keep_min a b) = best_score (keep_min b a) \<and>
   (best_score a \<noteq> best_score b \<longrightarrow> keep_min a b = keep_min b a) \<and>
   (best_score a = best_score b \<longrightarrow> keep_min a b = a)"
  using keep_min_assoc keep_min_score_commute keep_min_commute_neq
  by (simp add: keep_min_def xless_def split: xreal.splits)

theorem keep_min_assoc_and_score_commutative_witness:
  "best_score wm_a \<noteq> best_score wm_c \<and> keep_min wm_a wm_c = keep_min wm_c wm_a \<and>
   best_score wm_a = best_score wm_b \<and> keep_min wm_a wm_b = wm_a"
proof -
  have ne: "best_score wm_a \<noteq> best_score wm_c" and eq: "best_score wm_a = best_score wm_b"
    by (simp_all add: wm_a_def wm_b_def wm_c_def)
  from keep_min_assoc_and_score_commutative [of wm_a wm_c] ne
  have 1: "keep_min wm_a wm_c = keep_min wm_c wm_a"
    by blast
  from keep_min_assoc_and_score_commutative [of wm_a wm_b] eq
  have 2: "keep_min wm_a wm_b = wm_a"
    by blast
  from ne eq 1 2 show ?thesis by blast
qed

section \<open>The alignment table: loop invariants and the recurrence\<close>

lemma nth_upd2:
  assumes "i < length D" "j < length (D ! i)"
  shows "D[i := (D ! i)[j := v]] ! a ! b = (if a = i \<and> b = j then v else D ! a ! b)"
proof (cases "a = i")
  case True
  with assms show ?thesis by (simp add: nth_list_update)
next
  case False
  then show ?thesis by simp
qed

lemma table_shape_upd:
  assumes "table_shape m n D" "i \<le> m"
  shows "table_shape m n (D[i := (D ! i)[j := v]])"
  using assms unfolding table_shape_def by (simp add: nth_list_update)

lemma cell_cong:
  assumes "D ! (i - 1) ! (j - 1) = D' ! (i - 1) ! (j - 1)"
    and "D ! (i - 1) ! j = D' ! (i - 1) ! j"
    and "D ! i ! (j - 1) = D' ! i ! (j - 1)"
    and "D ! (i - 2) ! (j - 1) = D' ! (i - 2) ! (j - 1)"
    and "D ! (i - 1) ! (j - 2) = D' ! (i - 1) ! (j - 2)"
  shows "cell W query song D i j = cell W query song D' i j"
  unfolding cell_def assms by (rule refl)

lemma cell_upd_other:
  assumes sh: "table_shape m n D" and i: "1 \<le> i" "i \<le> m" and j: "1 \<le> j" "j \<le> n"
    and before: "i' < i \<or> (i' = i \<and> j' \<le> j)"
  shows "cell W query song (D[i := (D ! i)[j := v]]) i' j' = cell W query song D i' j'"
proof -
  have il: "i < length D" and jl: "j < length (D ! i)"
    using sh i j unfolding table_shape_def by auto
  note U = nth_upd2 [OF il jl]
  have n1: "\<not> (i' - 1 = i \<and> j' - 1 = j)" and n2: "\<not> (i' - 1 = i \<and> j' = j)"
    and n3: "\<not> (i' = i \<and> j' - 1 = j)" and n4: "\<not> (i' - 2 = i \<and> j' - 1 = j)"
    and n5: "\<not> (i' - 1 = i \<and> j' - 2 = j)"
    using before i j by linarith+
  show ?thesis
  proof (rule cell_cong)
    show "D[i := (D ! i)[j := v]] ! (i' - 1) ! (j' - 1) = D ! (i' - 1) ! (j' - 1)"
      unfolding U using n1 by (rule if_not_P)
    show "D[i := (D ! i)[j := v]] ! (i' - 1) ! j' = D ! (i' - 1) ! j'"
      unfolding U using n2 by (rule if_not_P)
    show "D[i := (D ! i)[j := v]] ! i' ! (j' - 1) = D ! i' ! (j' - 1)"
      unfolding U using n3 by (rule if_not_P)
    show "D[i := (D ! i)[j := v]] ! (i' - 2) ! (j' - 1) = D ! (i' - 2) ! (j' - 1)"
      unfolding U using n4 by (rule if_not_P)
    show "D[i := (D ! i)[j := v]] ! (i' - 1) ! (j' - 2) = D ! (i' - 1) ! (j' - 2)"
      unfolding U using n5 by (rule if_not_P)
  qed
qed

lemma init_fold:
  assumes "k \<le> n + 1" "table_shape m n D0"
  shows "table_shape m n (fold (\<lambda>j D. D[0 := (D ! 0)[j := 0]]) [0..<k] D0) \<and>
         (\<forall>a b. fold (\<lambda>j D. D[0 := (D ! 0)[j := 0]]) [0..<k] D0 ! a ! b =
            (if a = 0 \<and> b < k then 0 else D0 ! a ! b))"
  using assms
proof (induction k)
  case 0
  then show ?case by simp
next
  case (Suc k)
  let ?D = "fold (\<lambda>j D. D[0 := (D ! 0)[j := 0]]) [0..<k] D0"
  from Suc have sh: "table_shape m n ?D"
    and v: "\<forall>a b. ?D ! a ! b = (if a = 0 \<and> b < k then 0 else D0 ! a ! b)"
    by simp_all
  have il: "0 < length ?D" and jl: "k < length (?D ! 0)"
    using sh Suc.prems unfolding table_shape_def by auto
  have step: "fold (\<lambda>j D. D[0 := (D ! 0)[j := 0]]) [0..<Suc k] D0 = ?D[0 := (?D ! 0)[k := 0]]"
    by simp
  show ?case
    unfolding step using table_shape_upd [OF sh, of 0 k 0] v
    by (auto simp: nth_upd2 [OF il jl] less_Suc_eq)
qed

lemma init_table_props:
  "table_shape m n (init_table m n) \<and>
   (\<forall>j\<le>n. init_table m n ! 0 ! j = 0) \<and>
   (\<forall>i j. 1 \<le> i \<and> i \<le> m \<and> j \<le> n \<longrightarrow> init_table m n ! i ! j = INF_val)"
proof -
  let ?D0 = "replicate (m + 1) (replicate (n + 1) INF_val)"
  have r: "\<And>a. a \<le> m \<Longrightarrow> ?D0 ! a = replicate (n + 1) INF_val"
    by (simp del: replicate.simps)
  have v0: "\<And>a b. a \<le> m \<Longrightarrow> b \<le> n \<Longrightarrow> ?D0 ! a ! b = INF_val"
    by (simp del: replicate.simps)
  have sh0: "table_shape m n ?D0"
    unfolding table_shape_def using r by (simp del: replicate.simps)
  note F = init_fold [OF le_refl sh0]
  from F have sh: "table_shape m n (init_table m n)"
    unfolding init_table_def by blast
  from F have v: "\<And>a b. init_table m n ! a ! b = (if a = 0 \<and> b < n + 1 then 0 else ?D0 ! a ! b)"
    unfolding init_table_def by blast
  have row0: "\<forall>j\<le>n. init_table m n ! 0 ! j = 0"
    unfolding v by simp
  have rest: "\<forall>i j. 1 \<le> i \<and> i \<le> m \<and> j \<le> n \<longrightarrow> init_table m n ! i ! j = INF_val"
    unfolding v using v0 by (simp del: replicate.simps)
  from sh row0 rest show ?thesis by blast
qed

lemma init_table_inv: "table_inv W query song m n (init_table m n) 1 1"
  unfolding table_inv_def using init_table_props [of m n] by auto

lemma row_loop_Cons:
  "row_loop W query song i (j # js) D = Some D' \<longleftrightarrow>
     (\<exists>best. cell W query song D i j = Some best \<and>
        row_loop W query song i js (D[i := (D ! i)[j := best]]) = Some D')"
  by (simp add: bind_eq_Some_conv)

lemma table_loop_Cons:
  "table_loop W query song n (i # is) D = Some D' \<longleftrightarrow>
     (\<exists>D1. row_loop W query song i [1..<n + 1] D = Some D1 \<and>
        table_loop W query song n is D1 = Some D')"
  by (simp add: bind_eq_Some_conv del: upt_Suc)

lemma row_loop_inv:
  assumes "table_inv W query song m n D i j0" "1 \<le> i" "i \<le> m" "1 \<le> j0" "j0 \<le> n + 1"
    and "row_loop W query song i [j0..<n + 1] D = Some D'"
  shows "table_inv W query song m n D' i (n + 1)"
  using assms
proof (induction "n + 1 - j0" arbitrary: j0 D)
  case 0
  then have "j0 = n + 1" by simp
  with 0 show ?case by simp
next
  case (Suc k)
  then have j0: "j0 \<le> n" by simp
  then have ups: "[j0..<n + 1] = j0 # [j0 + 1..<n + 1]"
    by (simp add: upt_conv_Cons)
  from Suc.prems(6) obtain best where
    c: "cell W query song D i j0 = Some best"
    and r: "row_loop W query song i [j0 + 1..<n + 1] (D[i := (D ! i)[j0 := best]]) = Some D'"
    unfolding ups row_loop_Cons by blast
  let ?D1 = "D[i := (D ! i)[j0 := best]]"
  from Suc.prems(1) have sh: "table_shape m n D"
    and row0: "\<forall>j\<le>n. D ! 0 ! j = 0"
    and col0: "\<forall>i. 1 \<le> i \<and> i \<le> m \<longrightarrow> D ! i ! 0 = INF_val"
    and fl: "\<forall>i' j. 1 \<le> i' \<and> 1 \<le> j \<and> j \<le> n \<and> (i' < i \<or> (i' = i \<and> j < j0))
         \<longrightarrow> cell_filled W query song D i' j"
    unfolding table_inv_def by blast+
  have il: "i < length D" and jl: "j0 < length (D ! i)"
    using sh Suc.prems(3) j0 unfolding table_shape_def by auto
  note U = nth_upd2 [OF il jl]
  have inv1: "table_inv W query song m n ?D1 i (j0 + 1)"
    unfolding table_inv_def
  proof (intro conjI allI impI)
    show "table_shape m n ?D1"
      using table_shape_upd [OF sh Suc.prems(3)] .
    fix j assume "j \<le> n"
    then show "?D1 ! 0 ! j = 0"
      using row0 Suc.prems(2) by (simp add: U)
  next
    fix i' assume "1 \<le> i' \<and> i' \<le> m"
    then show "?D1 ! i' ! 0 = INF_val"
      using col0 Suc.prems(4) by (simp add: U)
  next
    fix i' j
    assume h: "1 \<le> i' \<and> 1 \<le> j \<and> j \<le> n \<and> (i' < i \<or> (i' = i \<and> j < j0 + 1))"
    then have before: "i' < i \<or> (i' = i \<and> j \<le> j0)" by auto
    have ceq: "cell W query song ?D1 i' j = cell W query song D i' j"
      using cell_upd_other [OF sh Suc.prems(2,3,4) j0 before] .
    show "cell_filled W query song ?D1 i' j"
    proof (cases "i' = i \<and> j = j0")
      case True
      then show ?thesis
        unfolding cell_filled_def ceq using c by (simp add: U)
    next
      case False
      with h have "1 \<le> i' \<and> 1 \<le> j \<and> j \<le> n \<and> (i' < i \<or> (i' = i \<and> j < j0))" by auto
      with fl have "cell_filled W query song D i' j" by blast
      with False show ?thesis
        unfolding cell_filled_def ceq by (auto simp: U)
    qed
  qed
  have k: "k = n + 1 - (j0 + 1)" using Suc.hyps(2) by simp
  show ?case
    by (rule Suc.hyps(1) [OF k inv1 Suc.prems(2,3) _ _ r]) (use j0 in simp_all)
qed

lemma table_inv_filled:
  assumes "table_inv W query song m n D i0 j0" "1 \<le> i" "1 \<le> j" "j \<le> n"
    and "i < i0 \<or> (i = i0 \<and> j < j0)"
  shows "cell_filled W query song D i j"
proof -
  from assms(1) have "\<forall>i j. 1 \<le> i \<and> 1 \<le> j \<and> j \<le> n \<and> (i < i0 \<or> (i = i0 \<and> j < j0))
         \<longrightarrow> cell_filled W query song D i j"
    unfolding table_inv_def by (elim conjE)
  then have "1 \<le> i \<and> 1 \<le> j \<and> j \<le> n \<and> (i < i0 \<or> (i = i0 \<and> j < j0))
         \<longrightarrow> cell_filled W query song D i j"
    by (elim allE)
  with assms(2-5) show ?thesis by (elim impE) (intro conjI)
qed

lemma table_inv_next_row:
  assumes a: "table_inv W query song m n D i (n + 1)"
  shows "table_inv W query song m n D (i + 1) 1"
proof -
  have f: "\<forall>i' j. 1 \<le> i' \<and> 1 \<le> j \<and> j \<le> n \<and> (i' < i + 1 \<or> (i' = i + 1 \<and> j < 1))
         \<longrightarrow> cell_filled W query song D i' j"
  proof (intro allI impI)
    fix i' j
    assume h: "1 \<le> i' \<and> 1 \<le> j \<and> j \<le> n \<and> (i' < i + 1 \<or> (i' = i + 1 \<and> j < 1))"
    then have b: "i' < i \<or> (i' = i \<and> j < n + 1)" by linarith
    from h have "1 \<le> i'" "1 \<le> j" "j \<le> n" by simp_all
    then show "cell_filled W query song D i' j"
      using b by (rule table_inv_filled [OF a])
  qed
  from a have "table_shape m n D \<and> (\<forall>j\<le>n. D ! 0 ! j = 0) \<and>
      (\<forall>i. 1 \<le> i \<and> i \<le> m \<longrightarrow> D ! i ! 0 = INF_val)"
    unfolding table_inv_def by (elim conjE) (intro conjI)
  with f show ?thesis
    unfolding table_inv_def by (elim conjE) (intro conjI)
qed

lemma table_loop_inv:
  assumes "table_inv W query song m n D i0 1" "1 \<le> i0" "i0 \<le> m + 1"
    and "table_loop W query song n [i0..<m + 1] D = Some D'"
  shows "table_inv W query song m n D' (m + 1) 1"
  using assms
proof (induction "m + 1 - i0" arbitrary: i0 D)
  case 0
  then have "i0 = m + 1" by simp
  with 0 show ?case by simp
next
  case (Suc k)
  then have i0: "i0 \<le> m" by simp
  then have ups: "[i0..<m + 1] = i0 # [i0 + 1..<m + 1]"
    by (simp add: upt_conv_Cons)
  from Suc.prems(4) obtain D1 where
    r: "row_loop W query song i0 [1..<n + 1] D = Some D1"
    and t: "table_loop W query song n [i0 + 1..<m + 1] D1 = Some D'"
    unfolding ups table_loop_Cons by blast
  have "table_inv W query song m n D1 i0 (n + 1)"
    by (rule row_loop_inv [OF Suc.prems(1) Suc.prems(2) i0 _ _ r]) simp_all
  then have inv1: "table_inv W query song m n D1 (i0 + 1) 1"
    by (rule table_inv_next_row)
  have k: "k = m + 1 - (i0 + 1)" using Suc.hyps(2) by simp
  show ?case
    by (rule Suc.hyps(1) [OF k inv1 _ _ t]) (use i0 in simp_all)
qed

lemma dp_table_inv:
  assumes "dp_table W query song = Some D"
  shows "table_inv W query song (length (intervals query)) (length (intervals song)) D
           (length (intervals query) + 1) 1"
proof -
  from assms have t: "table_loop W query song (length (intervals song))
      [1..<length (intervals query) + 1]
      (init_table (length (intervals query)) (length (intervals song))) = Some D"
    unfolding dp_table_def Let_def .
  show ?thesis
    by (rule table_loop_inv [OF init_table_inv _ _ t]) simp_all
qed

lemma spec_timing_eq: "spec_timing a b c d = timing_ratio_cost a b c d"
  unfolding spec_timing_def timing_ratio_cost_def eps_def Let_def by (rule refl)

lemma rep_ok_reads_ok:
  assumes "rep_ok query" "rep_ok song"
  shows "reads_ok query song"
  using assms unfolding rep_ok_def reads_ok_def by simp

lemma reads_ok_at_cell:
  assumes "reads_ok query song" "1 \<le> i" "i \<le> length (intervals query)"
    "1 \<le> j" "j \<le> length (intervals song)"
  shows "reads_ok_at query song i j"
proof -
  have a: "i - 1 < length (intervals query)" "j - 1 < length (intervals song)"
    "i - 1 < length (contour query)" "j - 1 < length (contour song)"
    using assms unfolding reads_ok_def by linarith+
  have b: "i - 1 < length (ioi query) \<and> j - 1 < length (ioi song)" if "2 \<le> i \<and> 2 \<le> j"
  proof -
    from that assms(3,5) have "2 \<le> length (intervals query) \<and> 2 \<le> length (intervals song)"
      by linarith
    with assms(1) have "length (intervals query) \<le> length (ioi query)"
      "length (intervals song) \<le> length (ioi song)"
      unfolding reads_ok_def by blast+
    with assms(2-5) show ?thesis by linarith
  qed
  from a b show ?thesis
    unfolding reads_ok_at_def by blast
qed

lemma reads_ok_at_last:
  assumes "reads_ok_at query song (length (intervals query)) (length (intervals song))"
  shows "reads_ok query song"
  using assms unfolding reads_ok_at_def reads_ok_def by linarith

lemma local_cost_at:
  assumes "reads_ok_at query song i j"
  shows "local_cost W query song i j = Some (spec_local W query song i j)"
proof -
  have b: "i - 1 < length (intervals query)" "i - 1 < length (contour query)"
    "j - 1 < length (intervals song)" "j - 1 < length (contour song)"
    using assms unfolding reads_ok_at_def by blast+
  note I = idx_Some [OF b(1)] idx_Some [OF b(2)] idx_Some [OF b(3)] idx_Some [OF b(4)]
  show ?thesis
  proof (cases "2 \<le> i \<and> 2 \<le> j")
    case True
    with assms have t: "i - 1 < length (ioi query)" "i - 2 < length (ioi query)"
      "j - 1 < length (ioi song)" "j - 2 < length (ioi song)"
      unfolding reads_ok_at_def by linarith+
    show ?thesis
      unfolding local_cost_def spec_local_def spec_timing_eq I
        idx_Some [OF t(1)] idx_Some [OF t(2)] idx_Some [OF t(3)] idx_Some [OF t(4)]
      by (simp add: interval_cost_def contour_cost_def)
  next
    case False
    then have e: "(2 \<le> i \<and> 2 \<le> j) = False" by simp
    show ?thesis
      unfolding local_cost_def spec_local_def I e if_False
      by (simp add: interval_cost_def contour_cost_def)
  qed
qed

lemma local_cost_None:
  assumes "\<not> reads_ok_at query song i j"
  shows "local_cost W query song i j = None"
  using assms unfolding reads_ok_at_def local_cost_def idx_def
  by (auto simp: Let_def)

lemma local_cost_spec:
  assumes "rep_ok query" "rep_ok song" "1 \<le> i" "i \<le> length (intervals query)"
    "1 \<le> j" "j \<le> length (intervals song)"
  shows "local_cost W query song i j = Some (spec_local W query song i j)"
  by (rule local_cost_at [OF reads_ok_at_cell [OF rep_ok_reads_ok [OF assms(1,2)] assms(3-6)]])

lemma min_opts3: "min (min (min I a) b) c = min I (Min (set [a, b, c]))"
  for I :: real
  by (simp add: min.assoc)

lemma min_opts4: "min (min (min (min I a) b) c) d = min I (Min (set [a, b, c, d]))"
  for I :: real
  by (simp add: min.assoc)

lemma min_opts5: "min (min (min (min (min I a) b) c) d) e = min I (Min (set [a, b, c, d, e]))"
  for I :: real
  by (simp add: min.assoc)

lemma cell_at:
  assumes r: "reads_ok_at query song i j"
  shows "cell W query song D i j = Some (min INF_val (Min (set (spec_options W query song D i j))))"
proof -
  have bd: "i - 1 < length (intervals query)" "i - 1 < length (contour query)"
    "j - 1 < length (intervals song)" "j - 1 < length (contour song)"
    using r unfolding reads_ok_at_def by blast+
  note I = idx_Some [OF bd(1)] idx_Some [OF bd(2)] idx_Some [OF bd(3)] idx_Some [OF bd(4)]
  note L = local_cost_at [OF r, of W]
  note S = cell_def L I Let_def Option.bind.simps spec_options_def spec_merge_query_def
    spec_merge_song_def spec_clamp_def if_True if_False append.simps
  consider (a) "\<not> 2 \<le> i" "\<not> 2 \<le> j" | (b) "2 \<le> i" "\<not> 2 \<le> j"
    | (c) "\<not> 2 \<le> i" "2 \<le> j" | (d) "2 \<le> i" "2 \<le> j"
    by blast
  then show ?thesis
  proof cases
    case a
    have e: "(2 \<le> i) = False" "(2 \<le> j) = False"
      using a by simp_all
    show ?thesis
      by (simp only: S e min_opts3)
  next
    case b
    have e: "(2 \<le> i) = True" "(2 \<le> j) = False"
      using b by simp_all
    have "i - 2 < length (intervals query)"
      using bd(1) by linarith
    note q2 = idx_Some [OF this]
    show ?thesis
      by (simp only: S e q2 min_opts4)
  next
    case c
    have e: "(2 \<le> i) = False" "(2 \<le> j) = True"
      using c by simp_all
    have "j - 2 < length (intervals song)"
      using bd(3) by linarith
    note s2 = idx_Some [OF this]
    show ?thesis
      by (simp only: S e s2 min_opts4)
  next
    case d
    have e: "(2 \<le> i) = True" "(2 \<le> j) = True"
      using d by simp_all
    have "i - 2 < length (intervals query)"
      using bd(1) by linarith
    note q2 = idx_Some [OF this]
    have "j - 2 < length (intervals song)"
      using bd(3) by linarith
    note s2 = idx_Some [OF this]
    show ?thesis
      by (simp only: S e q2 s2 min_opts5)
  qed
qed

lemma cell_None:
  assumes "\<not> reads_ok_at query song i j"
  shows "cell W query song D i j = None"
  unfolding cell_def Let_def local_cost_None [OF assms] by simp

lemma cell_spec:
  assumes ok: "rep_ok query" "rep_ok song" and i: "1 \<le> i" "i \<le> length (intervals query)"
    and j: "1 \<le> j" "j \<le> length (intervals song)"
  shows "cell W query song D i j = Some (min INF_val (Min (set (spec_options W query song D i j))))"
  by (rule cell_at [OF reads_ok_at_cell [OF rep_ok_reads_ok [OF ok] i j]])

lemma row_loop_Some:
  assumes "reads_ok query song" "1 \<le> i" "i \<le> length (intervals query)"
    and "\<forall>j\<in>set js. 1 \<le> j \<and> j \<le> length (intervals song)"
  shows "\<exists>D'. row_loop W query song i js D = Some D'"
  using assms(4)
proof (induction js arbitrary: D)
  case Nil
  show ?case by simp
next
  case (Cons j js)
  then have j: "1 \<le> j" "j \<le> length (intervals song)" by simp_all
  from cell_at [OF reads_ok_at_cell [OF assms(1,2,3) j]] obtain v where
    v: "cell W query song D i j = Some v"
    by blast
  from Cons have "\<exists>D'. row_loop W query song i js (D[i := (D ! i)[j := v]]) = Some D'"
    by simp
  with v show ?case
    unfolding row_loop_Cons by blast
qed

lemma table_loop_Some:
  assumes "reads_ok query song"
    and "\<forall>i\<in>set is. 1 \<le> i \<and> i \<le> length (intervals query)"
  shows "\<exists>D'. table_loop W query song (length (intervals song)) is D = Some D'"
  using assms(2)
proof (induction "is" arbitrary: D)
  case Nil
  show ?case by simp
next
  case (Cons i "is")
  then have i: "1 \<le> i" "i \<le> length (intervals query)" by simp_all
  have "\<forall>j\<in>set [1..<length (intervals song) + 1]. 1 \<le> j \<and> j \<le> length (intervals song)"
    by (auto simp del: upt_Suc)
  from row_loop_Some [OF assms(1) i this] obtain D1 where
    r: "row_loop W query song i [1..<length (intervals song) + 1] D = Some D1"
    by blast
  from Cons have "\<exists>D'. table_loop W query song (length (intervals song)) is D1 = Some D'"
    by simp
  with r show ?case
    unfolding table_loop_Cons by blast
qed

lemma dp_table_Some_reads:
  assumes "reads_ok query song"
  shows "\<exists>D. dp_table W query song = Some D"
proof -
  have "\<forall>i\<in>set [1..<length (intervals query) + 1]. 1 \<le> i \<and> i \<le> length (intervals query)"
    by (auto simp del: upt_Suc)
  from table_loop_Some [OF assms this] show ?thesis
    unfolding dp_table_def Let_def by blast
qed

lemma dp_table_Some:
  assumes "rep_ok query" "rep_ok song"
  shows "\<exists>D. dp_table W query song = Some D"
  by (rule dp_table_Some_reads [OF rep_ok_reads_ok [OF assms]])

lemma table_inv_parts:
  assumes "table_inv W query song m n D i0 j0"
  shows "table_shape m n D" and "\<And>j. j \<le> n \<Longrightarrow> D ! 0 ! j = 0"
    and "\<And>i. 1 \<le> i \<Longrightarrow> i \<le> m \<Longrightarrow> D ! i ! 0 = INF_val"
proof -
  from assms have a: "table_shape m n D" and b: "\<forall>j\<le>n. D ! 0 ! j = 0"
    and c: "\<forall>i. 1 \<le> i \<and> i \<le> m \<longrightarrow> D ! i ! 0 = INF_val"
    unfolding table_inv_def by blast+
  show "table_shape m n D" by (rule a)
  show "\<And>j. j \<le> n \<Longrightarrow> D ! 0 ! j = 0" using b by simp
  show "\<And>i. 1 \<le> i \<Longrightarrow> i \<le> m \<Longrightarrow> D ! i ! 0 = INF_val" using c by simp
qed

lemma dp_table_cell_filled:
  assumes D: "dp_table W query song = Some D"
    and i: "1 \<le> i" "i \<le> length (intervals query)"
    and j: "1 \<le> j" "j \<le> length (intervals song)"
  shows "cell W query song D i j = Some (D ! i ! j)"
proof -
  have "i < length (intervals query) + 1 \<or> (i = length (intervals query) + 1 \<and> j < 1)"
    using i by linarith
  from table_inv_filled [OF dp_table_inv [OF D] i(1) j this]
  show ?thesis
    unfolding cell_filled_def .
qed

lemma dp_table_reads_at:
  assumes D: "dp_table W query song = Some D"
    and i: "1 \<le> i" "i \<le> length (intervals query)"
    and j: "1 \<le> j" "j \<le> length (intervals song)"
  shows "reads_ok_at query song i j"
proof (rule ccontr)
  assume "\<not> reads_ok_at query song i j"
  from cell_None [OF this, of W D] dp_table_cell_filled [OF D i j] show False
    by simp
qed

lemma dp_table_reads:
  assumes D: "dp_table W query song = Some D"
    and ne: "1 \<le> length (intervals query)" "1 \<le> length (intervals song)"
  shows "reads_ok query song"
  by (rule reads_ok_at_last [OF dp_table_reads_at [OF D ne(1) le_refl ne(2) le_refl]])

lemma dp_table_cell:
  assumes D: "dp_table W query song = Some D"
    and i: "1 \<le> i" "i \<le> length (intervals query)"
    and j: "1 \<le> j" "j \<le> length (intervals song)"
  shows "D ! i ! j = min INF_val (Min (set (spec_options W query song D i j)))"
  using dp_table_cell_filled [OF D i j]
  unfolding cell_at [OF dp_table_reads_at [OF D i j]] by simp

lemma spec_options_finite: "finite (set (spec_options W query song D i j))"
  by simp

lemma spec_options_nonempty: "set (spec_options W query song D i j) \<noteq> {}"
  unfolding spec_options_def by simp

lemma ins_option_mem:
  "D ! (i - 1) ! j + ins_cost W \<in> set (spec_options W query song D i j)"
  unfolding spec_options_def by simp

lemma dp_table_cell_le_ins:
  assumes D: "dp_table W query song = Some D"
    and i: "1 \<le> i" "i \<le> length (intervals query)"
    and j: "1 \<le> j" "j \<le> length (intervals song)"
  shows "D ! i ! j \<le> D ! (i - 1) ! j + ins_cost W"
proof -
  have "Min (set (spec_options W query song D i j)) \<le> D ! (i - 1) ! j + ins_cost W"
    by (rule Min_le [OF spec_options_finite ins_option_mem])
  then show ?thesis
    unfolding dp_table_cell [OF D i j] by (rule min.coboundedI2)
qed

lemma dp_table_cell_le_INF:
  assumes D: "dp_table W query song = Some D"
    and i: "1 \<le> i" "i \<le> length (intervals query)"
    and j: "1 \<le> j" "j \<le> length (intervals song)"
  shows "D ! i ! j \<le> INF_val"
  unfolding dp_table_cell [OF D i j] by (rule min.cobounded1)

lemma dp_table_upper:
  assumes D: "dp_table W query song = Some D"
    and i: "i \<le> length (intervals query)"
    and j: "1 \<le> j" "j \<le> length (intervals song)"
  shows "D ! i ! j \<le> ins_cost W * real i"
  using i
proof (induction i)
  case 0
  have "D ! 0 ! j = 0"
    by (rule table_inv_parts(2) [OF dp_table_inv [OF D] j(2)])
  then show ?case by simp
next
  case (Suc i)
  then have IH: "D ! i ! j \<le> ins_cost W * real i" by simp
  have "D ! Suc i ! j \<le> D ! (Suc i - 1) ! j + ins_cost W"
    by (rule dp_table_cell_le_ins [OF D _ Suc.prems j]) simp
  also have "\<dots> = D ! i ! j + ins_cost W" by simp
  also have "\<dots> \<le> ins_cost W * real i + ins_cost W" using IH by simp
  also have "\<dots> = ins_cost W * real (Suc i)" by (simp add: algebra_simps)
  finally show ?case .
qed

lemma dp_table_small:
  "dp_table W rep_up rep_down =
     Some [[0, 0], [INF_val, min INF_val (Min (set (spec_options W rep_up rep_down
        [[0, 0], [INF_val, INF_val]] 1 1)))]]"
proof -
  have ok: "rep_ok rep_up" "rep_ok rep_down"
    by (simp_all add: rep_ok_def rep_up_def rep_down_def)
  have len: "length (intervals rep_up) = 1" "length (intervals rep_down) = 1"
    by (simp_all add: rep_up_def rep_down_def)
  have init: "init_table 1 1 = [[0, 0], [INF_val, INF_val]]"
    by (simp add: init_table_def numeral_2_eq_2)
  have c: "cell W rep_up rep_down [[0, 0], [INF_val, INF_val]] 1 1 =
      Some (min INF_val (Min (set (spec_options W rep_up rep_down [[0, 0], [INF_val, INF_val]] 1 1))))"
    by (rule cell_spec [OF ok]) (simp_all add: len)
  show ?thesis
    unfolding dp_table_def Let_def len init
    using c by simp
qed

text \<open>
  C1, as stated, fails: the table is initialised with the finite sentinel \<open>1e18\<close> and
  every cell starts from \<open>best = INF\<close>, so a cell is capped at \<open>1e18\<close>. With
  \<open>ins_cost = del_cost = 2e18\<close> and \<open>w_int = 1e19\<close> the candidates (1) to (3) for
  \<open>D[1][1]\<close> are \<open>1e19 + 0.7\<close>, \<open>2e18\<close> and \<open>3e18\<close>, whose minimum is \<open>2e18\<close>, while
  the table holds \<open>1e18\<close>.
\<close>

theorem dp_table_cap_counterexample:
  "dp_table huge_weights rep_up rep_down = Some [[0, 0], [10 ^ 18, 10 ^ 18]] \<and>
   Min (set (spec_options huge_weights rep_up rep_down [[0, 0], [10 ^ 18, 10 ^ 18]] 1 1)) =
     2 * 10 ^ 18 \<and>
   [[0, 0], [10 ^ 18, 10 ^ 18 :: real]] ! 1 ! 1 \<noteq>
     Min (set (spec_options huge_weights rep_up rep_down [[0, 0], [10 ^ 18, 10 ^ 18]] 1 1))"
proof -
  have opts: "spec_options huge_weights rep_up rep_down [[0, 0], [10 ^ 18, 10 ^ 18]] 1 1 =
      [10 ^ 19 + 7 / 10, 2 * 10 ^ 18, 3 * 10 ^ 18]"
    by (simp add: spec_options_def spec_local_def huge_weights_def rep_up_def rep_down_def)
  have m: "Min (set [10 ^ 19 + 7 / 10, 2 * 10 ^ 18, 3 * 10 ^ 18 :: real]) = 2 * 10 ^ 18"
    by simp
  have t: "dp_table huge_weights rep_up rep_down = Some [[0, 0], [10 ^ 18, 10 ^ 18]]"
    using dp_table_small [of huge_weights] unfolding INF_val_def opts m by simp
  show ?thesis
    unfolding opts m using t by simp
qed

text \<open>
  C1, amended: for well-formed representations with \<open>m \<ge> 1\<close> and \<open>n \<ge> 1\<close> the table
  is computed, has \<open>m + 1\<close> rows of \<open>n + 1\<close> columns, \<open>D[0][j] = 0\<close>, \<open>D[i][0]\<close> is the
  finite sentinel \<open>1e18\<close> for \<open>i \<ge> 1\<close>, and every \<open>D[i][j]\<close> with \<open>i, j \<ge> 1\<close> is the
  minimum of \<open>1e18\<close> and the candidates (1) to (5) of the recurrence; it is exactly the
  minimum of the candidates whenever \<open>ins_cost * i \<le> 1e18\<close>.
\<close>

theorem dp_table_recurrence:
  assumes "rep_ok query" "rep_ok song"
    and "1 \<le> length (intervals query)" "1 \<le> length (intervals song)"
  shows "\<exists>D. dp_table W query song = Some D \<and>
     length D = length (intervals query) + 1 \<and>
     (\<forall>i\<le>length (intervals query). length (D ! i) = length (intervals song) + 1) \<and>
     (\<forall>j\<le>length (intervals song). D ! 0 ! j = 0) \<and>
     (\<forall>i. 1 \<le> i \<and> i \<le> length (intervals query) \<longrightarrow> D ! i ! 0 = 10 ^ 18) \<and>
     (\<forall>i j. 1 \<le> i \<and> i \<le> length (intervals query) \<and> 1 \<le> j \<and> j \<le> length (intervals song) \<longrightarrow>
        D ! i ! j = min (10 ^ 18) (Min (set (spec_options W query song D i j))) \<and>
        (ins_cost W * real i \<le> 10 ^ 18 \<longrightarrow>
           D ! i ! j = Min (set (spec_options W query song D i j))))"
proof -
  from dp_table_Some [OF assms(1,2)] obtain D where D: "dp_table W query song = Some D"
    by blast
  note inv = dp_table_inv [OF D]
  from table_inv_parts(1) [OF inv]
  have sh: "length D = length (intervals query) + 1"
    "\<forall>i\<le>length (intervals query). length (D ! i) = length (intervals song) + 1"
    unfolding table_shape_def by blast+
  have row0: "\<forall>j\<le>length (intervals song). D ! 0 ! j = 0"
    using table_inv_parts(2) [OF inv] by blast
  have col0: "\<forall>i. 1 \<le> i \<and> i \<le> length (intervals query) \<longrightarrow> D ! i ! 0 = 10 ^ 18"
    using table_inv_parts(3) [OF inv] unfolding INF_val_def by blast
  have rec: "\<forall>i j. 1 \<le> i \<and> i \<le> length (intervals query) \<and> 1 \<le> j \<and> j \<le> length (intervals song) \<longrightarrow>
        D ! i ! j = min (10 ^ 18) (Min (set (spec_options W query song D i j))) \<and>
        (ins_cost W * real i \<le> 10 ^ 18 \<longrightarrow>
           D ! i ! j = Min (set (spec_options W query song D i j)))"
  proof (intro allI impI)
    fix i j
    assume h: "1 \<le> i \<and> i \<le> length (intervals query) \<and> 1 \<le> j \<and> j \<le> length (intervals song)"
    then have i: "1 \<le> i" "i \<le> length (intervals query)"
      and j: "1 \<le> j" "j \<le> length (intervals song)" by simp_all
    note c = dp_table_cell [OF D i j]
    have 1: "D ! i ! j = min (10 ^ 18) (Min (set (spec_options W query song D i j)))"
      using c unfolding INF_val_def .
    have 2: "D ! i ! j = Min (set (spec_options W query song D i j))"
      if b: "ins_cost W * real i \<le> 10 ^ 18"
    proof -
      have "i - 1 \<le> length (intervals query)" using i by simp
      from dp_table_upper [OF D this j, of ]
      have "D ! (i - 1) ! j + ins_cost W \<le> ins_cost W * real (i - 1) + ins_cost W"
        by simp
      also have "\<dots> = ins_cost W * real i"
        using i by (simp add: algebra_simps of_nat_diff)
      finally have "D ! (i - 1) ! j + ins_cost W \<le> 10 ^ 18"
        using b by simp
      moreover have "Min (set (spec_options W query song D i j)) \<le> D ! (i - 1) ! j + ins_cost W"
        by (rule Min_le [OF spec_options_finite ins_option_mem])
      ultimately have "Min (set (spec_options W query song D i j)) \<le> 10 ^ 18"
        by simp
      then show ?thesis
        unfolding 1 by (rule min_absorb2)
    qed
    from 1 2 show "D ! i ! j = min (10 ^ 18) (Min (set (spec_options W query song D i j))) \<and>
        (ins_cost W * real i \<le> 10 ^ 18 \<longrightarrow>
           D ! i ! j = Min (set (spec_options W query song D i j)))"
      by blast
  qed
  from D sh row0 col0 rec show ?thesis
    by blast
qed


theorem dp_table_recurrence_witness:
  "rep_ok rep_up \<and> rep_ok rep_down \<and>
   1 \<le> length (intervals rep_up) \<and> 1 \<le> length (intervals rep_down) \<and>
   ins_cost default_weights * real 1 \<le> 10 ^ 18 \<and>
   (\<exists>D. dp_table default_weights rep_up rep_down = Some D \<and>
        D ! 0 ! 1 = 0 \<and> D ! 1 ! 0 = 10 ^ 18 \<and>
        D ! 1 ! 1 = Min (set (spec_options default_weights rep_up rep_down D 1 1)))"
proof -
  have ok: "rep_ok rep_up" "rep_ok rep_down"
    by (simp_all add: rep_ok_def rep_up_def rep_down_def)
  have len: "1 \<le> length (intervals rep_up)" "1 \<le> length (intervals rep_down)"
    by (simp_all add: rep_up_def rep_down_def)
  have ins: "ins_cost default_weights * real 1 \<le> 10 ^ 18"
    by (simp add: default_weights_def)
  from dp_table_recurrence [OF ok len, of default_weights] obtain D where
    D: "dp_table default_weights rep_up rep_down = Some D"
    and row0: "\<forall>j\<le>length (intervals rep_down). D ! 0 ! j = 0"
    and col0: "\<forall>i. 1 \<le> i \<and> i \<le> length (intervals rep_up) \<longrightarrow> D ! i ! 0 = 10 ^ 18"
    and rec: "\<forall>i j. 1 \<le> i \<and> i \<le> length (intervals rep_up) \<and> 1 \<le> j \<and>
        j \<le> length (intervals rep_down) \<longrightarrow>
        D ! i ! j = min (10 ^ 18) (Min (set (spec_options default_weights rep_up rep_down D i j))) \<and>
        (ins_cost default_weights * real i \<le> 10 ^ 18 \<longrightarrow>
           D ! i ! j = Min (set (spec_options default_weights rep_up rep_down D i j)))"
    by blast
  from row0 len have 1: "D ! 0 ! 1 = 0" by blast
  from col0 len have 2: "D ! 1 ! 0 = 10 ^ 18" by blast
  from rec len ins have 3: "D ! 1 ! 1 = Min (set (spec_options default_weights rep_up rep_down D 1 1))"
    by blast
  from ok len ins D 1 2 3 show ?thesis by blast
qed

section \<open>The result of the alignment\<close>

lemma best_end_cost:
  "fst (best_end row js (bc, bj)) = Min (insert bc ((!) row ` set js))"
proof (induction js arbitrary: bc bj)
  case Nil
  show ?case by simp
next
  case (Cons j js)
  have fin: "finite ((!) row ` set js)" by simp
  show ?case
  proof (cases "row ! j < bc")
    case True
    have "Min (insert bc (insert (row ! j) ((!) row ` set js))) =
        min bc (Min (insert (row ! j) ((!) row ` set js)))"
      using fin by simp
    also have "\<dots> = Min (insert (row ! j) ((!) row ` set js))"
    proof (rule min_absorb2)
      have "Min (insert (row ! j) ((!) row ` set js)) \<le> row ! j"
        using fin by simp
      with True show "Min (insert (row ! j) ((!) row ` set js)) \<le> bc" by linarith
    qed
    finally show ?thesis
      using True Cons.IH [of "row ! j" "int j - 1"] by simp
  next
    case False
    have "Min (insert bc (insert (row ! j) ((!) row ` set js))) =
        Min (insert (row ! j) (insert bc ((!) row ` set js)))"
      by (simp add: insert_commute)
    also have "\<dots> = min (row ! j) (Min (insert bc ((!) row ` set js)))"
      using fin by simp
    also have "\<dots> = Min (insert bc ((!) row ` set js))"
    proof (rule min_absorb2)
      have "Min (insert bc ((!) row ` set js)) \<le> bc"
        using fin by simp
      with False show "Min (insert bc ((!) row ` set js)) \<le> row ! j" by linarith
    qed
    finally show ?thesis
      using False Cons.IH [of bc bj] by simp
  qed
qed

lemma best_end_cost_le: "fst (best_end row js (bc, bj)) \<le> bc"
  unfolding best_end_cost by simp

lemma best_end_index:
  "(fst (best_end row js (bc, bj)) < bc \<longrightarrow>
      (\<exists>pre j post. js = pre @ j # post \<and> row ! j = fst (best_end row js (bc, bj)) \<and>
         (\<forall>x\<in>set pre. fst (best_end row js (bc, bj)) < row ! x) \<and>
         snd (best_end row js (bc, bj)) = int j - 1)) \<and>
   (\<not> fst (best_end row js (bc, bj)) < bc \<longrightarrow> snd (best_end row js (bc, bj)) = bj)"
proof (induction js arbitrary: bc bj)
  case Nil
  show ?case by simp
next
  case (Cons j js)
  show ?case
  proof (cases "row ! j < bc")
    case True
    let ?r = "best_end row js (row ! j, int j - 1)"
    have eq: "best_end row (j # js) (bc, bj) = ?r"
      using True by simp
    note IH = Cons.IH [of "row ! j" "int j - 1"]
    have le: "fst ?r \<le> row ! j" by (rule best_end_cost_le)
    have lt: "fst ?r < bc" using le True by simp
    have "\<exists>pre j' post. j # js = pre @ j' # post \<and> row ! j' = fst ?r \<and>
         (\<forall>x\<in>set pre. fst ?r < row ! x) \<and> snd ?r = int j' - 1"
    proof (cases "fst ?r < row ! j")
      case True
      with IH obtain pre j' post where p: "js = pre @ j' # post" "row ! j' = fst ?r"
        "\<forall>x\<in>set pre. fst ?r < row ! x" "snd ?r = int j' - 1"
        by blast
      have "j # js = (j # pre) @ j' # post" using p(1) by simp
      moreover have "\<forall>x\<in>set (j # pre). fst ?r < row ! x" using p(3) True by simp
      ultimately show ?thesis using p(2,4) by blast
    next
      case False
      with IH have s: "snd ?r = int j - 1" by blast
      from False le have e: "row ! j = fst ?r" by simp
      have "j # js = [] @ j # js" by simp
      moreover have "\<forall>x\<in>set []. fst ?r < row ! x" by simp
      ultimately show ?thesis using e s by blast
    qed
    with lt show ?thesis unfolding eq by blast
  next
    case False
    let ?r = "best_end row js (bc, bj)"
    have eq: "best_end row (j # js) (bc, bj) = ?r"
      using False by simp
    note IH = Cons.IH [of bc bj]
    show ?thesis
    proof (cases "fst ?r < bc")
      case True
      with IH obtain pre j' post where p: "js = pre @ j' # post" "row ! j' = fst ?r"
        "\<forall>x\<in>set pre. fst ?r < row ! x" "snd ?r = int j' - 1"
        by blast
      have "j # js = (j # pre) @ j' # post" using p(1) by simp
      moreover have "\<forall>x\<in>set (j # pre). fst ?r < row ! x" using p(3) True False by simp
      ultimately have "\<exists>pre j' post. j # js = pre @ j' # post \<and> row ! j' = fst ?r \<and>
         (\<forall>x\<in>set pre. fst ?r < row ! x) \<and> snd ?r = int j' - 1"
        using p(2,4) by blast
      with True show ?thesis unfolding eq by blast
    next
      case False
      with IH have "snd ?r = bj" by blast
      with False show ?thesis unfolding eq by blast
    qed
  qed
qed

lemma upt_split_before:
  assumes "[a..<b] = pre @ j # post"
  shows "a \<le> j \<and> j < b \<and> (\<forall>x. a \<le> x \<and> x < j \<longrightarrow> x \<in> set pre)"
proof -
  have s: "sorted_wrt (<) (pre @ j # post)"
    using assms [symmetric] by (simp del: upt_Suc)
  have mem: "\<And>x. x \<in> set (pre @ j # post) \<longleftrightarrow> a \<le> x \<and> x < b"
    using assms [symmetric] by (simp del: upt_Suc)
  have j: "a \<le> j \<and> j < b" using mem [of j] by simp
  have "\<forall>x. a \<le> x \<and> x < j \<longrightarrow> x \<in> set pre"
  proof (intro allI impI)
    fix x assume x: "a \<le> x \<and> x < j"
    with j have "x \<in> set (pre @ j # post)" using mem [of x] by simp
    moreover have "x \<noteq> j" using x by simp
    moreover have "x \<notin> set post"
    proof
      assume "x \<in> set post"
      with s have "j < x" by (simp add: sorted_wrt_append)
      with x show False by simp
    qed
    ultimately show "x \<in> set pre" by simp
  qed
  with j show ?thesis by blast
qed

lemma Min_row_eq:
  assumes "1 \<le> n"
  shows "(!) row ` set [1..<n + 1] = (\<lambda>j. row ! j) ` {1..n}" and "{1..n} \<noteq> {}"
  using assms by (auto simp del: upt_Suc)

lemma dp_distance_empty:
  "intervals query = [] \<or> intervals song = [] \<Longrightarrow>
     dp_distance W query song = Some \<lparr>cost = PosInf, end_j = - 1\<rparr>"
  unfolding dp_distance_def Let_def by auto

lemma dp_distance_nonempty:
  assumes "intervals query \<noteq> []" "intervals song \<noteq> []"
  shows "dp_distance W query song =
     (case dp_table W query song of
        None \<Rightarrow> None
      | Some D \<Rightarrow>
          Some \<lparr>cost = Fin (fst (best_end (D ! length (intervals query))
                     [1..<length (intervals song) + 1] (INF_val, - 1)) +
                   (if pitches query \<noteq> [] \<and> pitches song \<noteq> [] then
                      w_abs W * (\<bar>mean_pitch (pitches query) - mean_pitch (pitches song)\<bar> / 12)
                    else 0)),
                end_j = snd (best_end (D ! length (intervals query))
                     [1..<length (intervals song) + 1] (INF_val, - 1))\<rparr>)"
proof -
  have e: "(length (intervals query) = 0 \<or> length (intervals song) = 0) = False"
    using assms by simp
  show ?thesis
    unfolding dp_distance_def Let_def e if_False
    by (cases "dp_table W query song") (simp_all add: case_prod_beta del: upt_Suc)
qed

lemma dp_distance_not_incomparable:
  assumes "intervals query \<noteq> []" "intervals song \<noteq> []"
  shows "dp_distance W query song \<noteq> Some \<lparr>cost = PosInf, end_j = - 1\<rparr>"
  unfolding dp_distance_nonempty [OF assms]
  by (cases "dp_table W query song") simp_all

lemma interval_cost_nonneg: "0 \<le> interval_cost a b"
  unfolding interval_cost_def by simp

lemma contour_cost_nonneg: "0 \<le> contour_cost a b"
  unfolding contour_cost_def by simp

lemma spec_timing_nonneg: "0 \<le> spec_timing a b c d"
  unfolding spec_timing_def by simp

lemma spec_local_nonneg:
  assumes "nonneg_weights W"
  shows "0 \<le> spec_local W query song i j"
proof -
  from assms have w: "0 \<le> w_int W" "0 \<le> w_cont W" "0 \<le> w_time W"
    unfolding nonneg_weights_def by simp_all
  have t: "0 \<le> (if 2 \<le> i \<and> 2 \<le> j
                 then spec_timing (ioi query ! (i - 2)) (ioi query ! (i - 1))
                        (ioi song ! (j - 2)) (ioi song ! (j - 1))
                 else 0)"
    using spec_timing_nonneg by simp
  have c: "0 \<le> (if contour query ! (i - 1) = contour song ! (j - 1) then 0 else (1::real))"
    by simp
  have a: "0 \<le> \<bar>real_of_int (intervals query ! (i - 1) - intervals song ! (j - 1))\<bar> / 8"
    by simp
  show ?thesis
    unfolding spec_local_def
    by (intro add_nonneg_nonneg mult_nonneg_nonneg w t c a)
qed

lemma spec_options_nonneg:
  assumes W: "nonneg_weights W"
    and d: "0 \<le> D ! (i - 1) ! (j - 1)" "0 \<le> D ! (i - 1) ! j" "0 \<le> D ! i ! (j - 1)"
      "0 \<le> D ! (i - 2) ! (j - 1)" "0 \<le> D ! (i - 1) ! (j - 2)"
  shows "\<forall>x\<in>set (spec_options W query song D i j). 0 \<le> x"
proof -
  from W have w: "0 \<le> w_int W" "0 \<le> w_cont W" "0 \<le> ins_cost W" "0 \<le> del_cost W"
    unfolding nonneg_weights_def by simp_all
  have 1: "0 \<le> D ! (i - 1) ! (j - 1) + spec_local W query song i j"
    by (intro add_nonneg_nonneg d spec_local_nonneg W)
  have 2: "0 \<le> D ! (i - 1) ! j + ins_cost W"
    by (intro add_nonneg_nonneg d w)
  have 3: "0 \<le> D ! i ! (j - 1) + del_cost W"
    by (intro add_nonneg_nonneg d w)
  have 4: "0 \<le> spec_merge_query W query song D i j"
    unfolding spec_merge_query_def
    by (intro add_nonneg_nonneg mult_nonneg_nonneg d w interval_cost_nonneg contour_cost_nonneg)
      simp
  have 5: "0 \<le> spec_merge_song W query song D i j"
    unfolding spec_merge_song_def
    by (intro add_nonneg_nonneg mult_nonneg_nonneg d w interval_cost_nonneg contour_cost_nonneg)
      simp
  show ?thesis
    unfolding spec_options_def using 1 2 3 4 5 by auto
qed

lemma INF_val_nonneg: "0 \<le> INF_val"
  unfolding INF_val_def by simp

lemma dp_table_nonneg:
  assumes D: "dp_table W query song = Some D"
    and W: "nonneg_weights W"
  shows "i \<le> length (intervals query) \<Longrightarrow> j \<le> length (intervals song) \<Longrightarrow> 0 \<le> D ! i ! j"
proof (induction i arbitrary: j rule: less_induct)
  case (less i)
  note inv = dp_table_inv [OF D]
  show ?case
    using less.prems(2)
  proof (induction j)
    case 0
    show ?case
    proof (cases "i = 0")
      case True
      then show ?thesis using table_inv_parts(2) [OF inv, of 0] by simp
    next
      case False
      then have "D ! i ! 0 = INF_val"
        using table_inv_parts(3) [OF inv, of i] less.prems(1) by simp
      then show ?thesis using INF_val_nonneg by simp
    qed
  next
    case (Suc j)
    show ?case
    proof (cases "i = 0")
      case True
      then show ?thesis using table_inv_parts(2) [OF inv Suc.prems] by simp
    next
      case False
      then have i: "1 \<le> i" "i \<le> length (intervals query)"
        using less.prems(1) by simp_all
      have j: "1 \<le> Suc j" "Suc j \<le> length (intervals song)"
        using Suc.prems by simp_all
      have prev: "\<And>i' j'. i' < i \<Longrightarrow> j' \<le> length (intervals song) \<Longrightarrow> 0 \<le> D ! i' ! j'"
        using less.IH i(2) by simp
      have d1: "0 \<le> D ! (i - 1) ! (Suc j - 1)" and d2: "0 \<le> D ! (i - 1) ! Suc j"
        and d5: "0 \<le> D ! (i - 1) ! (Suc j - 2)"
        using prev [of "i - 1"] i j by simp_all
      have d3: "0 \<le> D ! i ! (Suc j - 1)"
        using Suc.IH Suc.prems by simp
      have d4: "0 \<le> D ! (i - 2) ! (Suc j - 1)"
        using prev [of "i - 2"] i j by simp
      from spec_options_nonneg [OF W d1 d2 d3 d4 d5]
      have "0 \<le> Min (set (spec_options W query song D i (Suc j)))"
        using spec_options_nonempty [of W query song D i "Suc j"]
        by (simp only: Min_ge_iff [OF spec_options_finite spec_options_nonempty])
      with INF_val_nonneg show ?thesis
        unfolding dp_table_cell [OF D i j] by simp
    qed
  qed
qed

lemma last_row_scan:
  assumes ne: "1 \<le> length (intervals query)" "1 \<le> length (intervals song)"
    and D: "dp_table W query song = Some D"
  defines "m \<equiv> length (intervals query)" and "n \<equiv> length (intervals song)"
  defines "mn \<equiv> Min ((\<lambda>j. D ! m ! j) ` {1..n})"
  defines "r \<equiv> best_end (D ! m) [1..<n + 1] (INF_val, - 1)"
  shows "fst r = mn"
    and "mn \<le> INF_val"
    and "mn < INF_val \<Longrightarrow> \<exists>j. 1 \<le> j \<and> j \<le> n \<and> D ! m ! j = mn \<and>
           (\<forall>j'. 1 \<le> j' \<and> j' < j \<longrightarrow> mn < D ! m ! j') \<and> snd r = int j - 1"
    and "\<not> mn < INF_val \<Longrightarrow> snd r = - 1"
    and "ins_cost W * real m < INF_val \<Longrightarrow> mn < INF_val"
    and "nonneg_weights W \<Longrightarrow> 0 \<le> mn"
proof -
  have n1: "1 \<le> n" using ne unfolding n_def by simp
  have img: "(!) (D ! m) ` set [1..<n + 1] = (\<lambda>j. D ! m ! j) ` {1..n}"
    by (rule Min_row_eq(1) [OF n1])
  have nonempty: "{1..n} \<noteq> {}"
    by (rule Min_row_eq(2) [OF n1])
  have fin: "finite ((\<lambda>j. D ! m ! j) ` {1..n})" and ne': "(\<lambda>j. D ! m ! j) ` {1..n} \<noteq> {}"
    using nonempty by simp_all
  have cells: "\<And>j. 1 \<le> j \<Longrightarrow> j \<le> n \<Longrightarrow> D ! m ! j \<le> INF_val"
    unfolding m_def n_def by (rule dp_table_cell_le_INF [OF D ne(1) le_refl])
  have "\<forall>x\<in>(\<lambda>j. D ! m ! j) ` {1..n}. mn \<le> x"
    unfolding mn_def using fin by simp
  have mem: "mn \<in> (\<lambda>j. D ! m ! j) ` {1..n}"
    unfolding mn_def by (rule Min_in [OF fin ne'])
  then obtain j0 where j0: "1 \<le> j0" "j0 \<le> n" "mn = D ! m ! j0"
    by auto
  show le: "mn \<le> INF_val"
    using cells [OF j0(1,2)] j0(3) by simp
  have "fst r = Min (insert INF_val ((\<lambda>j. D ! m ! j) ` {1..n}))"
    unfolding r_def best_end_cost img ..
  also have "\<dots> = min INF_val mn"
    unfolding mn_def by (rule Min_insert [OF fin ne'])
  also have "\<dots> = mn"
    using le by (rule min_absorb2)
  finally show f: "fst r = mn" .
  note I = best_end_index [of "D ! m" "[1..<n + 1]" INF_val "- 1", folded r_def, unfolded f]
  show "\<exists>j. 1 \<le> j \<and> j \<le> n \<and> D ! m ! j = mn \<and>
           (\<forall>j'. 1 \<le> j' \<and> j' < j \<longrightarrow> mn < D ! m ! j') \<and> snd r = int j - 1"
    if lt: "mn < INF_val"
  proof -
    from I lt obtain pre j post where p: "[1..<n + 1] = pre @ j # post" "D ! m ! j = mn"
      "\<forall>x\<in>set pre. mn < D ! m ! x" "snd r = int j - 1"
      by blast
    from upt_split_before [OF p(1)] have j: "1 \<le> j" "j \<le> n"
      and pre: "\<forall>x. 1 \<le> x \<and> x < j \<longrightarrow> x \<in> set pre"
      by simp_all
    have "\<forall>j'. 1 \<le> j' \<and> j' < j \<longrightarrow> mn < D ! m ! j'"
      using pre p(3) by blast
    with j p(2,4) show ?thesis by blast
  qed
  show "snd r = - 1" if "\<not> mn < INF_val"
    using I that by blast
  show "mn < INF_val" if b: "ins_cost W * real m < INF_val"
  proof -
    have "D ! m ! 1 \<le> ins_cost W * real m"
      unfolding m_def
      by (rule dp_table_upper [OF D le_refl _ ne(2)]) simp
    moreover have "mn \<le> D ! m ! 1"
      unfolding mn_def using n1 by (intro Min_le fin) simp
    ultimately show ?thesis using b by simp
  qed
  show "0 \<le> mn" if W: "nonneg_weights W"
  proof -
    have "0 \<le> D ! m ! j0"
      unfolding m_def
      by (rule dp_table_nonneg [OF D W le_refl]) (use j0(2) in \<open>simp add: n_def\<close>)
    then show ?thesis using j0(3) by simp
  qed
qed

lemma default_weights_nonneg: "nonneg_weights default_weights"
  unfolding nonneg_weights_def default_weights_def by simp

text \<open>
  C2, amended: for well-formed representations with \<open>m \<ge> 1\<close> and \<open>n \<ge> 1\<close> the cost
  returned by \<open>dp_distance\<close> is the minimum of \<open>D[m][j]\<close> over \<open>j\<close> in \<open>[1, n]\<close> plus,
  exactly when both pitch lists are non-empty, \<open>w_abs * |mean(query.pitches) -
  mean(candidate.pitches)| / 12\<close>. When that minimum is below the sentinel \<open>1e18\<close>,
  \<open>end_j\<close> is \<open>j - 1\<close> for the first \<open>j\<close> that attains it; otherwise \<open>end_j = -1\<close>. The
  minimum is below \<open>1e18\<close> whenever \<open>ins_cost * m < 1e18\<close>.
\<close>

theorem dp_distance_cost_and_end:
  assumes "rep_ok query" "rep_ok song"
    and "1 \<le> length (intervals query)" "1 \<le> length (intervals song)"
  shows "\<exists>D r. dp_table W query song = Some D \<and> dp_distance W query song = Some r \<and>
     cost r =
       Fin (Min ((\<lambda>j. D ! length (intervals query) ! j) ` {1..length (intervals song)}) +
            (if pitches query \<noteq> [] \<and> pitches song \<noteq> [] then
               w_abs W *
                 (\<bar>real_of_int (sum_list (pitches query)) / real (length (pitches query)) -
                   real_of_int (sum_list (pitches song)) / real (length (pitches song))\<bar> / 12)
             else 0)) \<and>
     (Min ((\<lambda>j. D ! length (intervals query) ! j) ` {1..length (intervals song)}) < 10 ^ 18 \<longrightarrow>
        (\<exists>j. 1 \<le> j \<and> j \<le> length (intervals song) \<and>
           D ! length (intervals query) ! j =
             Min ((\<lambda>j. D ! length (intervals query) ! j) ` {1..length (intervals song)}) \<and>
           (\<forall>j'. 1 \<le> j' \<and> j' < j \<longrightarrow>
              Min ((\<lambda>j. D ! length (intervals query) ! j) ` {1..length (intervals song)})
                < D ! length (intervals query) ! j') \<and>
           end_j r = int j - 1)) \<and>
     (\<not> Min ((\<lambda>j. D ! length (intervals query) ! j) ` {1..length (intervals song)}) < 10 ^ 18 \<longrightarrow>
        end_j r = - 1) \<and>
     (ins_cost W * real (length (intervals query)) < 10 ^ 18 \<longrightarrow>
        Min ((\<lambda>j. D ! length (intervals query) ! j) ` {1..length (intervals song)}) < 10 ^ 18)"
proof -
  from dp_table_Some [OF assms(1,2)] obtain D where D: "dp_table W query song = Some D"
    by blast
  have ne: "intervals query \<noteq> []" "intervals song \<noteq> []"
    using assms(3,4) by auto
  let ?r = "best_end (D ! length (intervals query)) [1..<length (intervals song) + 1] (INF_val, - 1)"
  let ?pen = "(if pitches query \<noteq> [] \<and> pitches song \<noteq> [] then
               w_abs W *
                 (\<bar>real_of_int (sum_list (pitches query)) / real (length (pitches query)) -
                   real_of_int (sum_list (pitches song)) / real (length (pitches song))\<bar> / 12)
             else 0)"
  let ?res = "\<lparr>cost = Fin (fst ?r + ?pen), end_j = snd ?r\<rparr>"
  have res: "dp_distance W query song = Some ?res"
    unfolding dp_distance_nonempty [OF ne] D mean_pitch_def by simp
  note S = last_row_scan [OF assms(3,4) D, unfolded INF_val_def]
  have c: "cost ?res =
       Fin (Min ((\<lambda>j. D ! length (intervals query) ! j) ` {1..length (intervals song)}) + ?pen)"
    unfolding S(1) [symmetric] INF_val_def by simp
  have e: "end_j ?res = snd (best_end (D ! length (intervals query))
      [1..<length (intervals song) + 1] (10 ^ 18, - 1))"
    unfolding INF_val_def by simp
  show ?thesis
    apply (rule exI [of _ D], rule exI [of _ ?res])
    apply (intro conjI impI)
         apply (rule D)
        apply (rule res)
       apply (rule c)
      apply (unfold e)
      apply (erule S(3))
     apply (erule S(4))
    apply (erule S(5))
    done
qed

text \<open>
  C2, as stated, fails: with \<open>ins_cost = del_cost = 2e18\<close> and \<open>w_int = 1e19\<close> the only
  cell of the last row holds the sentinel \<open>1e18\<close>, the test \<open>D[m][j] < best_cost\<close> never
  succeeds, and \<open>end_j\<close> stays \<open>-1\<close> although \<open>j = 1\<close> attains the minimum of \<open>D[m][j]\<close>.
\<close>

theorem dp_distance_cap_counterexample:
  "length (intervals rep_down) = 1 \<and>
   dp_table huge_weights rep_up rep_down = Some [[0, 0], [10 ^ 18, 10 ^ 18]] \<and>
   dp_distance huge_weights rep_up rep_down = Some \<lparr>cost = Fin (10 ^ 18), end_j = - 1\<rparr>"
proof -
  have opts: "spec_options huge_weights rep_up rep_down [[0, 0], [10 ^ 18, 10 ^ 18]] 1 1 =
      [10 ^ 19 + 7 / 10, 2 * 10 ^ 18, 3 * 10 ^ 18]"
    by (simp add: spec_options_def spec_local_def huge_weights_def rep_up_def rep_down_def)
  have m: "Min (set [10 ^ 19 + 7 / 10, 2 * 10 ^ 18, 3 * 10 ^ 18 :: real]) = 2 * 10 ^ 18"
    by simp
  have t: "dp_table huge_weights rep_up rep_down = Some [[0, 0], [10 ^ 18, 10 ^ 18]]"
    using dp_table_small [of huge_weights] unfolding INF_val_def opts m by simp
  have ne: "intervals rep_up \<noteq> []" "intervals rep_down \<noteq> []"
    by (simp_all add: rep_up_def rep_down_def)
  have l: "length (intervals rep_up) = 1" "length (intervals rep_down) = 1"
    by (simp_all add: rep_up_def rep_down_def)
  have p: "mean_pitch (pitches rep_up) = 66" "mean_pitch (pitches rep_down) = 66"
    by (simp_all add: mean_pitch_def rep_up_def rep_down_def)
  have d: "dp_distance huge_weights rep_up rep_down = Some \<lparr>cost = Fin (10 ^ 18), end_j = - 1\<rparr>"
    unfolding dp_distance_nonempty [OF ne] t l p by (simp add: INF_val_def)
  from l(2) t d show ?thesis by blast
qed

theorem dp_distance_cost_and_end_witness:
  "rep_ok rep_up \<and> rep_ok rep_down \<and>
   1 \<le> length (intervals rep_up) \<and> 1 \<le> length (intervals rep_down) \<and>
   ins_cost default_weights * real (length (intervals rep_up)) < 10 ^ 18 \<and>
   (\<exists>r. dp_distance default_weights rep_up rep_down = Some r \<and> end_j r = 0)"
proof -
  have ok: "rep_ok rep_up" "rep_ok rep_down"
    by (simp_all add: rep_ok_def rep_up_def rep_down_def)
  have len: "1 \<le> length (intervals rep_up)" "1 \<le> length (intervals rep_down)"
    by (simp_all add: rep_up_def rep_down_def)
  have n: "length (intervals rep_down) = 1"
    by (simp add: rep_down_def)
  have ins: "ins_cost default_weights * real (length (intervals rep_up)) < 10 ^ 18"
    by (simp add: default_weights_def rep_up_def)
  from dp_distance_cost_and_end [OF ok len, of default_weights] ins obtain r j where
    r: "dp_distance default_weights rep_up rep_down = Some r"
    and j: "1 \<le> j" "j \<le> length (intervals rep_down)" "end_j r = int j - 1"
    by blast
  from j(1,2) have "j = 1" unfolding n by simp
  with j(3) have "end_j r = 0" by simp
  with ok len ins r show ?thesis by blast
qed

lemma dp_distance_index_error:
  assumes "intervals query \<noteq> []" "intervals song \<noteq> []" "\<not> reads_ok query song"
  shows "dp_distance W query song = None"
proof -
  have len: "1 \<le> length (intervals query)" "1 \<le> length (intervals song)"
    using assms(1,2) by (simp_all add: Suc_le_eq)
  have "dp_table W query song = None"
  proof (cases "dp_table W query song")
    case None
    then show ?thesis .
  next
    case (Some D)
    from dp_table_reads [OF Some len] assms(3) show ?thesis by blast
  qed
  then show ?thesis
    unfolding dp_distance_nonempty [OF assms(1,2)] by simp
qed

text \<open>
  C3, as stated, fails: \<open>dp_distance\<close> reads \<open>contour\<close> (and \<open>ioi\<close>) at the indices of
  \<open>intervals\<close> and never compares the lengths. The entry that \<open>load_db\<close> builds from a
  stored object with one interval and an empty contour has a non-empty interval sequence,
  and so has the query, yet the call raises IndexError at \<open>song.contour[0]\<close> instead of
  returning a finite cost.
\<close>

theorem dp_distance_index_error_counterexample:
  "load_db [bad_dict] = [bad_entry] \<and>
   intervals rep_up \<noteq> [] \<and> intervals (entry_to_rep bad_entry) \<noteq> [] \<and>
   dp_distance default_weights rep_up (entry_to_rep bad_entry) = None"
proof -
  have l: "load_db [bad_dict] = [bad_entry]"
    by (simp add: load_db_def bad_dict_def bad_entry_def)
  have ne: "intervals rep_up \<noteq> []" "intervals (entry_to_rep bad_entry) \<noteq> []"
    by (simp_all add: rep_up_def entry_to_rep_def bad_entry_def)
  have "\<not> reads_ok rep_up (entry_to_rep bad_entry)"
    by (simp add: reads_ok_def rep_up_def entry_to_rep_def bad_entry_def)
  from dp_distance_index_error [OF ne this, of default_weights] l ne show ?thesis
    by blast
qed

text \<open>
  C3, amended: \<open>dp_distance\<close> returns the incomparable result (cost \<open>+inf\<close>, \<open>end_j = -1\<close>)
  exactly when one of the two interval sequences is empty. With both non-empty it returns,
  for the default weights, a finite non-negative cost and an end index in \<open>[0, n - 1]\<close>
  provided that each contour sequence is at least as long as its interval sequence and,
  when both interval sequences have two elements or more, each IOI sequence as well (as
  the length invariant of the data model ensures); otherwise it raises IndexError. The
  table has \<open>m + 1\<close> rows in memory, so \<open>m\<close> is far below the bound \<open>1e18\<close> under which
  \<open>0.8 * m\<close> stays below the sentinel.
\<close>

theorem dp_distance_incomparable_iff:
  "(dp_distance W query song = Some \<lparr>cost = PosInf, end_j = - 1\<rparr> \<longleftrightarrow>
      intervals query = [] \<or> intervals song = []) \<and>
   (intervals query \<noteq> [] \<and> intervals song \<noteq> [] \<and> reads_ok query song \<and>
    length (intervals query) \<le> 10 ^ 18 \<longrightarrow>
      (\<exists>c e. dp_distance default_weights query song = Some \<lparr>cost = Fin c, end_j = e\<rparr> \<and>
         0 \<le> c \<and> 0 \<le> e \<and> e \<le> int (length (intervals song)) - 1)) \<and>
   (intervals query \<noteq> [] \<and> intervals song \<noteq> [] \<and> \<not> reads_ok query song \<longrightarrow>
      dp_distance W query song = None)"
proof (intro conjI)
  show "dp_distance W query song = Some \<lparr>cost = PosInf, end_j = - 1\<rparr> \<longleftrightarrow>
      intervals query = [] \<or> intervals song = []"
    using dp_distance_empty [of query song W] dp_distance_not_incomparable [of query song W]
    by blast
next
  show "intervals query \<noteq> [] \<and> intervals song \<noteq> [] \<and> \<not> reads_ok query song \<longrightarrow>
      dp_distance W query song = None"
    using dp_distance_index_error [of query song W] by blast
next
  show "intervals query \<noteq> [] \<and> intervals song \<noteq> [] \<and> reads_ok query song \<and>
    length (intervals query) \<le> 10 ^ 18 \<longrightarrow>
      (\<exists>c e. dp_distance default_weights query song = Some \<lparr>cost = Fin c, end_j = e\<rparr> \<and>
         0 \<le> c \<and> 0 \<le> e \<and> e \<le> int (length (intervals song)) - 1)"
  proof
    assume h: "intervals query \<noteq> [] \<and> intervals song \<noteq> [] \<and> reads_ok query song \<and>
      length (intervals query) \<le> 10 ^ 18"
    then have ok: "reads_ok query song"
      and ne: "intervals query \<noteq> []" "intervals song \<noteq> []"
      and len: "1 \<le> length (intervals query)" "1 \<le> length (intervals song)"
      and m: "length (intervals query) \<le> 10 ^ 18"
      by (simp_all add: Suc_le_eq)
    from dp_table_Some_reads [OF ok] obtain D where
      D: "dp_table default_weights query song = Some D"
      by blast
    let ?r = "best_end (D ! length (intervals query)) [1..<length (intervals song) + 1] (INF_val, - 1)"
    let ?pen = "(if pitches query \<noteq> [] \<and> pitches song \<noteq> [] then
        w_abs default_weights * (\<bar>mean_pitch (pitches query) - mean_pitch (pitches song)\<bar> / 12)
      else 0)"
    have res: "dp_distance default_weights query song =
        Some \<lparr>cost = Fin (fst ?r + ?pen), end_j = snd ?r\<rparr>"
      unfolding dp_distance_nonempty [OF ne] D by simp
    note S = last_row_scan [OF len D]
    have "real (length (intervals query)) \<le> 10 ^ 18"
      using m by (metis of_nat_le_iff of_nat_numeral of_nat_power)
    then have "ins_cost default_weights * real (length (intervals query)) < INF_val"
      unfolding default_weights_def INF_val_def by simp
    from S(3) [OF S(5) [OF this]] obtain j where j: "1 \<le> j" "j \<le> length (intervals song)"
      "snd ?r = int j - 1"
      by blast
    have pen: "0 \<le> ?pen"
      by (simp add: default_weights_def)
    have "0 \<le> fst ?r"
      unfolding S(1) by (rule S(6) [OF default_weights_nonneg])
    with pen have c: "0 \<le> fst ?r + ?pen" by simp
    have e: "0 \<le> snd ?r" "snd ?r \<le> int (length (intervals song)) - 1"
      using j by simp_all
    from res c e show "\<exists>c e. dp_distance default_weights query song = Some \<lparr>cost = Fin c, end_j = e\<rparr> \<and>
         0 \<le> c \<and> 0 \<le> e \<and> e \<le> int (length (intervals song)) - 1"
      by blast
  qed
qed

theorem dp_distance_incomparable_iff_witness:
  "intervals rep_single = [] \<and>
   dp_distance default_weights rep_single rep_down = Some \<lparr>cost = PosInf, end_j = - 1\<rparr> \<and>
   intervals rep_up \<noteq> [] \<and> intervals rep_down \<noteq> [] \<and> reads_ok rep_up rep_down \<and>
   length (intervals rep_up) \<le> 10 ^ 18 \<and>
   (\<exists>c. dp_distance default_weights rep_up rep_down = Some \<lparr>cost = Fin c, end_j = 0\<rparr> \<and> 0 \<le> c) \<and>
   intervals (entry_to_rep bad_entry) \<noteq> [] \<and> \<not> reads_ok rep_up (entry_to_rep bad_entry) \<and>
   dp_distance huge_weights rep_up (entry_to_rep bad_entry) = None"
proof -
  have e: "intervals rep_single = []"
    by (simp add: rep_single_def)
  from dp_distance_incomparable_iff [of default_weights rep_single rep_down] e
  have 1: "dp_distance default_weights rep_single rep_down = Some \<lparr>cost = PosInf, end_j = - 1\<rparr>"
    by blast
  have h: "intervals rep_up \<noteq> []" "intervals rep_down \<noteq> []" "reads_ok rep_up rep_down"
    "length (intervals rep_up) \<le> 10 ^ 18"
    by (simp_all add: reads_ok_def rep_up_def rep_down_def)
  have n: "int (length (intervals rep_down)) - 1 = 0"
    by (simp add: rep_down_def)
  from dp_distance_incomparable_iff [of default_weights rep_up rep_down] h obtain c e where
    r: "dp_distance default_weights rep_up rep_down = Some \<lparr>cost = Fin c, end_j = e\<rparr>"
    and c: "0 \<le> c" and e0: "0 \<le> e" "e \<le> int (length (intervals rep_down)) - 1"
    by blast
  from e0 have "e = 0" unfolding n by simp
  with r c have 2: "\<exists>c. dp_distance default_weights rep_up rep_down =
      Some \<lparr>cost = Fin c, end_j = 0\<rparr> \<and> 0 \<le> c"
    by blast
  have b: "intervals (entry_to_rep bad_entry) \<noteq> []" "\<not> reads_ok rep_up (entry_to_rep bad_entry)"
    by (simp_all add: reads_ok_def rep_up_def entry_to_rep_def bad_entry_def)
  from dp_distance_incomparable_iff [of huge_weights rep_up "entry_to_rep bad_entry"] h(1) b
  have 3: "dp_distance huge_weights rep_up (entry_to_rep bad_entry) = None"
    by blast
  from e 1 h 2 b 3 show ?thesis by blast
qed

section \<open>Corpus database: properties\<close>

lemma notes_to_rep_lengths':
  "length (intervals (notes_to_rep notes)) = length notes - 1 \<and>
   length (contour (notes_to_rep notes)) = length notes - 1 \<and>
   length (ioi (notes_to_rep notes)) = length notes - 1 \<and>
   pitches (notes_to_rep notes) = map pitch notes"
  unfolding notes_to_rep_def by (simp add: Let_def)

lemma notes_to_rep_length_invariant: "length_invariant (notes_to_rep notes)"
  unfolding length_invariant_def using notes_to_rep_lengths' [of "notes"] by auto

lemma entry_of_invariant: "length_invariant (entry_of path notes)"
  using notes_to_rep_length_invariant [of "notes"]
  unfolding length_invariant_def entry_of_def by simp

lemma build_db_loop_step:
  "build_db_loop extract (path # paths) (db, bad) =
     (case extract path of
        Inl msg \<Rightarrow> build_db_loop extract paths (db, bad @ [(path, msg)])
      | Inr notes \<Rightarrow>
          if length (intervals (notes_to_rep notes)) < 2
          then build_db_loop extract paths (db, bad @ [(path, too_few_msg)])
          else build_db_loop extract paths (db @ [entry_of path notes], bad))"
  by (simp add: Let_def entry_of_def split: sum.splits)

lemma build_db_loop_props:
  assumes "build_db_loop extract paths (db, bad) = (db', bad')"
  shows "length db' + length bad' = length db + length bad + length paths \<and>
     set db \<subseteq> set db' \<and> set bad \<subseteq> set bad' \<and>
     (\<forall>e\<in>set db'. e \<in> set db \<or> (length_invariant e \<and> 2 \<le> length (intervals e))) \<and>
     (\<forall>p\<in>set paths.
        (\<forall>msg. extract p = Inl msg \<longrightarrow> (p, msg) \<in> set bad') \<and>
        (\<forall>notes. extract p = Inr notes \<longrightarrow>
           (if length (intervals (notes_to_rep notes)) < 2 then (p, too_few_msg) \<in> set bad'
            else entry_of p notes \<in> set db')))"
  using assms
proof (induction paths arbitrary: db bad)
  case Nil
  then show ?case by simp
next
  case (Cons path paths)
  show ?case
  proof (cases "extract path")
    case (Inl msg)
    with Cons.prems have r: "build_db_loop extract paths (db, bad @ [(path, msg)]) = (db', bad')"
      unfolding build_db_loop_step by simp
    from Cons.IH [OF r] Inl show ?thesis by auto
  next
    case (Inr ns)
    show ?thesis
    proof (cases "length (intervals (notes_to_rep ns)) < 2")
      case True
      with Cons.prems Inr
      have r: "build_db_loop extract paths (db, bad @ [(path, too_few_msg)]) = (db', bad')"
        unfolding build_db_loop_step by simp
      from Cons.IH [OF r] Inr True show ?thesis by auto
    next
      case False
      with Cons.prems Inr
      have r: "build_db_loop extract paths (db @ [entry_of path ns], bad) = (db', bad')"
        unfolding build_db_loop_step by simp
      have e: "length_invariant (entry_of path ns)"
        "2 \<le> length (intervals (entry_of path ns))"
        using entry_of_invariant False by (simp_all add: entry_of_def)
      from Cons.IH [OF r] Inr False e show ?thesis by auto
    qed
  qed
qed

lemma load_db_nth:
  "k < length payload \<Longrightarrow>
     pitches (load_db payload ! k) = d_pitches (payload ! k) \<and>
     intervals (load_db payload ! k) = d_intervals (payload ! k) \<and>
     contour (load_db payload ! k) = d_contour (payload ! k) \<and>
     ioi (load_db payload ! k) = d_ioi (payload ! k) \<and>
     song_id (load_db payload ! k) = d_song_id (payload ! k) \<and>
     midi_path (load_db payload ! k) = d_midi_path (payload ! k)"
  unfolding load_db_def by simp

text \<open>
  C4, as stated, fails: \<open>load_db\<close> does not look at the lengths. A stored entry with three
  pitches, one interval and empty contour and IOI sequences is loaded as it is.
\<close>

theorem load_db_accepts_malformed:
  "load_db [bad_dict] = [bad_entry] \<and> \<not> length_invariant bad_entry"
  by (simp add: load_db_def bad_dict_def bad_entry_def length_invariant_def)

text \<open>
  C4, amended: \<open>load_db\<close> returns one entry per stored object with the sequences exactly as
  stored. \<open>build_db\<close> handles every path: a path whose extraction raises is logged with the
  text of the exception, a path with fewer than three notes (fewer than two intervals) is
  logged with a fixed reason, every other path gives an entry built by \<open>notes_to_rep\<close>; the
  loop goes on after a rejected path, and every accepted entry satisfies the length
  invariant and has at least two intervals.
\<close>

theorem load_db_no_validation_build_db_tolerant:
  "length (load_db payload) = length payload \<and>
   (\<forall>k<length payload.
      pitches (load_db payload ! k) = d_pitches (payload ! k) \<and>
      intervals (load_db payload ! k) = d_intervals (payload ! k) \<and>
      contour (load_db payload ! k) = d_contour (payload ! k) \<and>
      ioi (load_db payload ! k) = d_ioi (payload ! k) \<and>
      song_id (load_db payload ! k) = d_song_id (payload ! k)) \<and>
   length (fst (build_db extract midi_paths)) + length (snd (build_db extract midi_paths)) =
     length midi_paths \<and>
   (\<forall>e\<in>set (fst (build_db extract midi_paths)).
      length_invariant e \<and> 2 \<le> length (intervals e)) \<and>
   (\<forall>p\<in>set midi_paths.
      (\<forall>msg. extract p = Inl msg \<longrightarrow> (p, msg) \<in> set (snd (build_db extract midi_paths))) \<and>
      (\<forall>notes. extract p = Inr notes \<and> length notes < 3 \<longrightarrow>
         (p, ''No usable melody extracted (too few notes/intervals).'')
           \<in> set (snd (build_db extract midi_paths))) \<and>
      (\<forall>notes. extract p = Inr notes \<and> 3 \<le> length notes \<longrightarrow>
         (\<exists>e\<in>set (fst (build_db extract midi_paths)).
            midi_path e = p \<and> song_id e = song_id_of_path p \<and>
            entry_to_rep e = notes_to_rep notes)))"
proof -
  obtain db' bad' where r: "build_db_loop extract midi_paths ([], []) = (db', bad')"
    by (cases "build_db_loop extract midi_paths ([], [])") blast
  then have b: "build_db extract midi_paths = (db', bad')"
    unfolding build_db_def .
  note P = build_db_loop_props [OF r]
  have 1: "length (load_db payload) = length payload"
    unfolding load_db_def by simp
  have 2: "\<forall>k<length payload.
      pitches (load_db payload ! k) = d_pitches (payload ! k) \<and>
      intervals (load_db payload ! k) = d_intervals (payload ! k) \<and>
      contour (load_db payload ! k) = d_contour (payload ! k) \<and>
      ioi (load_db payload ! k) = d_ioi (payload ! k) \<and>
      song_id (load_db payload ! k) = d_song_id (payload ! k)"
    using load_db_nth by blast
  have 3: "length db' + length bad' = length midi_paths"
    using P by simp
  have 4: "\<forall>e\<in>set db'. length_invariant e \<and> 2 \<le> length (intervals e)"
    using P by simp
  have 5: "\<forall>p\<in>set midi_paths.
      (\<forall>msg. extract p = Inl msg \<longrightarrow> (p, msg) \<in> set bad') \<and>
      (\<forall>notes. extract p = Inr notes \<and> length notes < 3 \<longrightarrow>
         (p, ''No usable melody extracted (too few notes/intervals).'') \<in> set bad') \<and>
      (\<forall>notes. extract p = Inr notes \<and> 3 \<le> length notes \<longrightarrow>
         (\<exists>e\<in>set db'. midi_path e = p \<and> song_id e = song_id_of_path p \<and>
            entry_to_rep e = notes_to_rep notes))"
  proof (intro ballI conjI allI impI)
    fix p msg assume "p \<in> set midi_paths" "extract p = Inl msg"
    with P show "(p, msg) \<in> set bad'" by blast
  next
    fix p ns assume p: "p \<in> set midi_paths" and h: "extract p = Inr ns \<and> length ns < 3"
    then have "length (intervals (notes_to_rep ns)) < 2"
      using notes_to_rep_lengths' [of ns] by auto
    with P p h have "(p, too_few_msg) \<in> set bad'" by (metis (no_types, lifting))
    then show "(p, ''No usable melody extracted (too few notes/intervals).'') \<in> set bad'"
      unfolding too_few_msg_def .
  next
    fix p ns assume p: "p \<in> set midi_paths" and h: "extract p = Inr ns \<and> 3 \<le> length ns"
    then have "\<not> length (intervals (notes_to_rep ns)) < 2"
      using notes_to_rep_lengths' [of ns] by auto
    with P p h have "entry_of p ns \<in> set db'" by (metis (no_types, lifting))
    moreover have "midi_path (entry_of p ns) = p \<and>
        song_id (entry_of p ns) = song_id_of_path p \<and>
        entry_to_rep (entry_of p ns) = notes_to_rep ns"
      by (simp add: entry_of_def entry_to_rep_def)
    ultimately show "\<exists>e\<in>set db'. midi_path e = p \<and> song_id e = song_id_of_path p \<and>
            entry_to_rep e = notes_to_rep ns"
      by blast
  qed
  show ?thesis
    unfolding b fst_conv snd_conv using 1 2 3 4 5 by blast
qed

theorem load_db_no_validation_build_db_tolerant_witness:
  "(0::nat) < length [bad_dict] \<and>
   intervals (load_db [bad_dict] ! 0) = [1] \<and> contour (load_db [bad_dict] ! 0) = [] \<and>
   ''a/broken.mid'' \<in> set paths0 \<and>
   extract0 ''a/broken.mid'' = Inl ''OSError: data byte must be in range 0..127'' \<and>
   (''a/broken.mid'', ''OSError: data byte must be in range 0..127'')
      \<in> set (snd (build_db extract0 paths0)) \<and>
   ''a/short.mid'' \<in> set paths0 \<and>
   (''a/short.mid'', ''No usable melody extracted (too few notes/intervals).'')
      \<in> set (snd (build_db extract0 paths0)) \<and>
   ''b/song.one.mid'' \<in> set paths0 \<and>
   (\<exists>e\<in>set (fst (build_db extract0 paths0)).
      midi_path e = ''b/song.one.mid'' \<and> song_id e = ''song.one'' \<and> length_invariant e)"
proof -
  note T = load_db_no_validation_build_db_tolerant [of "[bad_dict]" extract0 paths0]
  have k: "(0::nat) < length [bad_dict]" by simp
  from T k have l: "intervals (load_db [bad_dict] ! 0) = d_intervals ([bad_dict] ! 0)"
    "contour (load_db [bad_dict] ! 0) = d_contour ([bad_dict] ! 0)"
    by blast+
  have l': "intervals (load_db [bad_dict] ! 0) = [1]" "contour (load_db [bad_dict] ! 0) = []"
    unfolding l by (simp_all add: bad_dict_def)
  have p: "''a/broken.mid'' \<in> set paths0" "''a/short.mid'' \<in> set paths0"
    "''b/song.one.mid'' \<in> set paths0"
    by (simp_all add: paths0_def)
  have x1: "extract0 ''a/broken.mid'' = Inl ''OSError: data byte must be in range 0..127''"
    by (simp add: extract0_def)
  have x2: "extract0 ''a/short.mid'' = Inr [\<lparr>pitch = 60, onset = 0, duration = 1\<rparr>] \<and>
      length [\<lparr>pitch = 60, onset = 0, duration = 1\<rparr>] < 3"
    by (simp add: extract0_def)
  have x3: "extract0 ''b/song.one.mid'' = Inr notes3 \<and> 3 \<le> length notes3"
    by (simp add: extract0_def notes3_def)
  from T p(1) x1 have b1: "(''a/broken.mid'', ''OSError: data byte must be in range 0..127'')
      \<in> set (snd (build_db extract0 paths0))"
    by blast
  from T p(2) x2 have b2: "(''a/short.mid'', ''No usable melody extracted (too few notes/intervals).'')
      \<in> set (snd (build_db extract0 paths0))"
    by blast
  from T p(3) x3 obtain e where e: "e \<in> set (fst (build_db extract0 paths0))"
    "midi_path e = ''b/song.one.mid''" "song_id e = song_id_of_path ''b/song.one.mid''"
    by blast
  from T e(1) have inv: "length_invariant e" by blast
  have sid: "song_id_of_path ''b/song.one.mid'' = ''song.one''"
    by (simp add: song_id_of_path_def rsplit1_head_def)
  from e inv sid have "\<exists>e\<in>set (fst (build_db extract0 paths0)).
      midi_path e = ''b/song.one.mid'' \<and> song_id e = ''song.one'' \<and> length_invariant e"
    by auto
  with k l' p x1 b1 b2 show ?thesis by blast
qed

section \<open>Window scan and ranking: properties\<close>











































end
